(* ===== verification/Prelude.thy ===== *)
theory Prelude
  imports Main "HOL-Library.Word" "HOL-Library.Char_ord" "HOL-Library.List_Lexorder"
    "HOL-Library.Sublist"
begin

unbundle bit_operations_syntax

text \<open>
  Shared vocabulary of the harness model: the machine integers and byte vectors of the C++ code,
  big- and little-endian serialisation of words, decimal printing (\<^verbatim>\<open>std::to_string\<close>),
  \<^verbatim>\<open>std::map\<close> as a strictly sorted association list, and the locale that states what a client
  of such a map may rely on. The collections \<open>codec_simps\<close> and \<open>store_simps\<close> gather the rewrite
  rules of the serialisers and of the key-value stores.
\<close>

named_theorems codec_simps "rewrite rules of the byte serialisers"
named_theorems store_simps "rewrite rules of the key-value stores"

section \<open>Machine types\<close>

type_synonym byte = "8 word"
type_synonym bytes = "byte list"
type_synonym u32 = "32 word"
type_synonym u64 = "64 word"

text \<open>The bytes of a \<^verbatim>\<open>std::string\<close>, as \<^verbatim>\<open>reinterpret_cast<const uint8_t*>\<close> reads them.\<close>

definition string_bytes :: "string \<Rightarrow> bytes" where
  "string_bytes s = map of_char s"

lemma length_string_bytes [simp]: "length (string_bytes s) = length s"
  by (simp add: string_bytes_def)

lemma of_char_word8_inject: "(of_char c :: byte) = of_char d \<longleftrightarrow> c = d"
proof -
  have u: "unat (of_char x :: byte) = (of_char x :: nat)" for x
  proof -
    have "(of_char x :: byte) = word_of_nat (of_char x)" by (simp only: of_nat_of_char)
    moreover have "(of_char x :: nat) < 256" by (rule nat_of_char_less_256)
    ultimately show ?thesis by (simp only: unat_of_nat) simp
  qed
  show ?thesis using u [of c] u [of d] by (metis of_char_eq_iff)
qed

lemma string_bytes_inject [simp]: "string_bytes s = string_bytes t \<longleftrightarrow> s = t"
proof -
  have "inj (of_char :: char \<Rightarrow> byte)" by (rule injI) (simp add: of_char_word8_inject)
  then show ?thesis by (simp add: string_bytes_def inj_map_eq_map)
qed

section \<open>Big-endian and little-endian words\<close>

definition byte_at :: "nat \<Rightarrow> 'a::len word \<Rightarrow> byte" where
  "byte_at i v = ucast (drop_bit (8 * i) v AND 0xFF)"

primrec be_bytes :: "nat \<Rightarrow> 'a::len word \<Rightarrow> bytes" where
  "be_bytes 0 v = []"
| "be_bytes (Suc i) v = byte_at i v # be_bytes i v"

definition le_bytes :: "nat \<Rightarrow> 'a::len word \<Rightarrow> bytes" where
  "le_bytes n v = map (\<lambda>i. byte_at i v) [0..<n]"

definition be_accum :: "'a::len word \<Rightarrow> bytes \<Rightarrow> 'a word" where
  "be_accum = foldl (\<lambda>v x. push_bit 8 v OR ucast x)"

lemma length_be_bytes [simp]: "length (be_bytes n v) = n"
  by (induction n) auto

lemma length_le_bytes [simp]: "length (le_bytes n v) = n"
  by (simp add: le_bytes_def)

lemma le_bytes_rev: "le_bytes n v = rev (be_bytes n v)"
  by (induction n) (auto simp: le_bytes_def)

lemma word_ff_mask: "(0xFF :: 'a::len word) = mask 8"
  by (simp add: mask_eq_exp_minus_1)

lemma bit_byte_at: "bit (byte_at i v) j \<longleftrightarrow> j < 8 \<and> bit v (8 * i + j)"
  by (auto simp: byte_at_def bit_simps word_ff_mask dest: bit_imp_le_length)

lemma be_accum_be_bytes:
  "be_accum v0 (be_bytes n v) = push_bit (8 * n) v0 OR take_bit (8 * n) v"
proof (induction n arbitrary: v0)
  case 0
  show ?case by (simp add: be_accum_def)
next
  case (Suc n)
  have "be_accum v0 (be_bytes (Suc n) v)
      = be_accum (push_bit 8 v0 OR ucast (byte_at n v)) (be_bytes n v)"
    by (simp add: be_accum_def)
  also have "\<dots> = push_bit (8 * n) (push_bit 8 v0 OR ucast (byte_at n v)) OR take_bit (8 * n) v"
    by (rule Suc.IH)
  also have "\<dots> = push_bit (8 * Suc n) v0 OR take_bit (8 * Suc n) v"
    by (rule bit_word_eqI) (auto simp: bit_simps bit_byte_at not_le not_less add.commute)
  finally show ?case .
qed

lemma be_accum_full [simp, codec_simps]:
  assumes "LENGTH('a::len) \<le> 8 * n"
  shows "be_accum 0 (be_bytes n (v :: 'a word)) = v"
  using assms by (simp add: be_accum_be_bytes take_bit_word_eq_self)

lemma be_bytes_inject:
  assumes "LENGTH('a::len) \<le> 8 * n"
  shows "be_bytes n (v :: 'a word) = be_bytes n w \<longleftrightarrow> v = w"
  using be_accum_full [OF assms] by metis

lemma le_bytes_inject:
  assumes "LENGTH('a::len) \<le> 8 * n"
  shows "le_bytes n (v :: 'a word) = le_bytes n w \<longleftrightarrow> v = w"
  using be_bytes_inject [OF assms] by (simp add: le_bytes_rev)

text \<open>The accumulator of a reader is the only source of its bytes: reading and printing again.\<close>

lemma bit_be_accum_snoc:
  "be_accum v0 (xs @ [x]) = push_bit 8 (be_accum v0 xs) OR ucast x"
  by (simp add: be_accum_def)

lemma be_bytes_be_accum:
  assumes "length xs = n" and "8 * n \<le> LENGTH('a::len)"
  shows "be_bytes n (be_accum 0 xs :: 'a word) = xs"
  using assms
proof (induction xs arbitrary: n rule: rev_induct)
  case Nil
  then show ?case by simp
next
  case (snoc x xs)
  let ?v = "be_accum 0 xs :: 'a word" and ?m = "length xs"
  have shift: "byte_at (Suc i) (push_bit 8 ?v OR ucast x) = byte_at i ?v" if "i < ?m" for i
  proof (rule bit_word_eqI)
    fix j assume j: "j < LENGTH(8)"
    have le: "8 + (8 * i + j) < LENGTH('a)" using that snoc.prems j by simp
    show "bit (byte_at (Suc i) (push_bit 8 ?v OR ucast x)) j = bit (byte_at i ?v) j"
      using j le by (auto simp: bit_byte_at bit_simps dest: bit_imp_le_length)
  qed
  have low: "byte_at 0 (push_bit 8 ?v OR ucast x) = x"
    using snoc.prems by (intro bit_word_eqI) (auto simp: bit_byte_at bit_simps)
  have "be_bytes (Suc k) (push_bit 8 ?v OR ucast x) = be_bytes k ?v @ [x]" if "k \<le> ?m" for k
    using that by (induction k) (auto simp: low shift)
  moreover have "be_bytes ?m ?v = xs" using snoc by simp
  ultimately show ?case
    using snoc.prems by (auto simp: bit_be_accum_snoc)
qed

section \<open>Decimal printing\<close>

definition digit_char :: "nat \<Rightarrow> char" where
  "digit_char d = char_of (48 + d)"

fun dec_of_nat :: "nat \<Rightarrow> string" where
  "dec_of_nat n = (if n < 10 then [digit_char n] else dec_of_nat (n div 10) @ [digit_char (n mod 10)])"

declare dec_of_nat.simps [simp del]

text \<open>\<^verbatim>\<open>std::to_string\<close> on the unsigned and signed types the harness prints.\<close>

definition to_string_u64 :: "u64 \<Rightarrow> string" where
  "to_string_u64 v = dec_of_nat (unat v)"

definition to_string_int :: "int \<Rightarrow> string" where
  "to_string_int i = (if i < 0 then CHR ''-'' # dec_of_nat (nat (- i)) else dec_of_nat (nat i))"

definition dec_val :: "string \<Rightarrow> nat" where
  "dec_val = foldl (\<lambda>a c. 10 * a + (of_char c - 48)) 0"

lemma of_char_digit: "d < 10 \<Longrightarrow> (of_char (digit_char d) :: nat) = 48 + d"
  by (simp add: digit_char_def)

lemma dec_val_dec_of_nat [simp]: "dec_val (dec_of_nat n) = n"
proof (induction n rule: dec_of_nat.induct)
  case (1 n)
  show ?case
  proof (cases "n < 10")
    case True
    then show ?thesis by (subst dec_of_nat.simps) (simp add: dec_val_def of_char_digit)
  next
    case False
    then have "dec_val (dec_of_nat n) = 10 * dec_val (dec_of_nat (n div 10)) + n mod 10"
      by (subst dec_of_nat.simps) (simp add: dec_val_def of_char_digit)
    with False 1 show ?thesis by simp
  qed
qed

lemma dec_of_nat_inject [simp]: "dec_of_nat m = dec_of_nat n \<longleftrightarrow> m = n"
  by (metis dec_val_dec_of_nat)

lemma to_string_u64_inject [simp]: "to_string_u64 v = to_string_u64 w \<longleftrightarrow> v = w"
  by (simp add: to_string_u64_def word_unat_eq_iff)

lemma dec_of_nat_digits: "c \<in> set (dec_of_nat n) \<Longrightarrow> c \<in> set ''0123456789''"
proof (induction n rule: dec_of_nat.induct)
  case (1 n)
  have "\<forall>d\<in>set [0..<10]. digit_char d \<in> set ''0123456789''" by code_simp
  then have dig: "digit_char d \<in> set ''0123456789''" if "d < 10" for d using that by simp
  show ?case
  proof (cases "n < 10")
    case True
    with 1 dig show ?thesis by (simp add: dec_of_nat.simps [of n])
  next
    case False
    then have "c \<in> set (dec_of_nat (n div 10)) \<or> c = digit_char (n mod 10)"
      using "1.prems" by (auto simp: dec_of_nat.simps [of n])
    with 1 False dig [of "n mod 10"] show ?thesis by auto
  qed
qed

lemma dec_of_nat_nonempty [simp]: "dec_of_nat n \<noteq> []"
  by (subst dec_of_nat.simps) simp

section \<open>Ordered maps\<close>

text \<open>
  \<^verbatim>\<open>std::map<K, V>\<close>: the entries in increasing key order, each key once. \<open>om_find\<close> is
  \<^verbatim>\<open>find\<close>, \<open>om_set\<close> an assignment through \<^verbatim>\<open>operator[]\<close> or through an iterator,
  \<open>om_emplace\<close> an insertion that keeps a present entry, \<open>om_erase\<close> \<^verbatim>\<open>erase\<close>.
\<close>

type_synonym ('k, 'v) omap = "('k \<times> 'v) list"

definition om_ok :: "('k::linorder, 'v) omap \<Rightarrow> bool" where
  "om_ok m \<longleftrightarrow> sorted_wrt (<) (map fst m)"

definition om_find :: "('k, 'v) omap \<Rightarrow> 'k \<Rightarrow> 'v option" where
  "om_find m k = map_of m k"

fun om_set :: "'k::linorder \<Rightarrow> 'v \<Rightarrow> ('k, 'v) omap \<Rightarrow> ('k, 'v) omap" where
  "om_set k v [] = [(k, v)]"
| "om_set k v (e # m) =
     (if fst e < k then e # om_set k v m
      else if fst e = k then (k, v) # m
      else (k, v) # e # m)"

definition om_emplace :: "'k::linorder \<Rightarrow> 'v \<Rightarrow> ('k, 'v) omap \<Rightarrow> ('k, 'v) omap" where
  "om_emplace k v m = (case om_find m k of None \<Rightarrow> om_set k v m | Some _ \<Rightarrow> m)"

definition om_erase :: "'k \<Rightarrow> ('k, 'v) omap \<Rightarrow> ('k, 'v) omap" where
  "om_erase k m = filter (\<lambda>e. fst e \<noteq> k) m"

definition om_keys :: "('k, 'v) omap \<Rightarrow> 'k list" where
  "om_keys m = map fst m"

lemma om_ok_Nil [simp]: "om_ok []"
  by (simp add: om_ok_def)

lemma om_find_Nil [simp]: "om_find [] k = None"
  by (simp add: om_find_def)

lemma om_ok_Cons: "om_ok (e # m) \<longleftrightarrow> (\<forall>x\<in>set m. fst e < fst x) \<and> om_ok m"
  by (auto simp: om_ok_def)

lemma om_find_Cons: "om_find (e # m) k = (if fst e = k then Some (snd e) else om_find m k)"
  by (simp add: om_find_def)

lemma om_find_None: "om_find m k = None \<longleftrightarrow> k \<notin> fst ` set m"
  by (simp add: om_find_def map_of_eq_None_iff)

lemma om_keys_find: "k \<in> set (om_keys m) \<longleftrightarrow> om_find m k \<noteq> None"
  by (auto simp: om_keys_def om_find_None)

lemma fst_set_om_set: "fst ` set (om_set k v m) = insert k (fst ` set m)"
  by (induction m) auto

lemma om_ok_set: "om_ok m \<Longrightarrow> om_ok (om_set k v m)"
proof (induction m)
  case (Cons e m)
  from Cons.prems have lt: "\<forall>x\<in>set m. fst e < fst x" and ok: "om_ok m"
    by (auto simp: om_ok_Cons)
  consider "fst e < k" | "fst e = k" | "k < fst e" by force
  then show ?case
  proof cases
    case 1
    then have "\<forall>a\<in>fst ` set (om_set k v m). fst e < a"
      using lt by (simp add: fst_set_om_set)
    with 1 Cons.IH [OF ok] show ?thesis by (simp add: om_ok_Cons)
  next
    case 2
    with lt ok show ?thesis by (simp add: om_ok_Cons)
  next
    case 3
    then have "\<not> fst e < k" "fst e \<noteq> k" by auto
    moreover have "\<forall>x\<in>set m. k < fst x" using 3 lt by (meson less_trans)
    ultimately show ?thesis using 3 lt ok by (simp add: om_ok_Cons)
  qed
qed (simp add: om_ok_def)

lemma om_find_set: "om_ok m \<Longrightarrow> om_find (om_set k v m) k' = (if k' = k then Some v else om_find m k')"
  by (induction m) (auto simp: om_find_Cons om_ok_Cons)

lemma om_ok_erase: "om_ok m \<Longrightarrow> om_ok (om_erase k m)"
  by (induction m) (auto simp: om_erase_def om_ok_Cons)

lemma om_find_erase: "om_find (om_erase k m) k' = (if k' = k then None else om_find m k')"
  by (induction m) (auto simp: om_erase_def om_find_Cons)

lemma om_find_mem: "om_ok m \<Longrightarrow> om_find m k = Some v \<longleftrightarrow> (k, v) \<in> set m"
  by (simp add: om_find_def om_ok_def strict_sorted_iff map_of_eq_Some_iff)

lemma om_rep: "om_ok m \<Longrightarrow> m = map (\<lambda>k. (k, the (om_find m k))) (om_keys m)"
proof -
  assume ok: "om_ok m"
  have "(fst e, the (om_find m (fst e))) = e" if "e \<in> set m" for e
    using that om_find_mem [OF ok, of "fst e" "snd e"] by simp
  then have "map (\<lambda>e. (fst e, the (om_find m (fst e)))) m = m" by (rule map_idI)
  then show ?thesis by (simp add: om_keys_def comp_def)
qed

lemma om_ext:
  assumes "om_ok m" "om_ok m'" "\<And>k. om_find m k = om_find m' k"
  shows "m = m'"
proof -
  have "set (om_keys m) = set (om_keys m')"
    using assms(3) by (auto simp: om_keys_find)
  then have "om_keys m = om_keys m'"
    using assms(1,2) by (intro strict_sorted_equal) (auto simp: om_ok_def om_keys_def)
  then show ?thesis
    using om_rep [OF assms(1)] om_rep [OF assms(2)] assms(3) by simp
qed

subsection \<open>What a client of a map relies on\<close>

locale keyed_map =
  fixes find :: "'m \<Rightarrow> 'k \<Rightarrow> 'v option"
    and put :: "'k \<Rightarrow> 'v \<Rightarrow> 'm \<Rightarrow> 'm"
    and del :: "'k \<Rightarrow> 'm \<Rightarrow> 'm"
    and ok :: "'m \<Rightarrow> bool"
  assumes find_put: "ok m \<Longrightarrow> find (put k v m) k' = (if k' = k then Some v else find m k')"
    and find_del: "ok m \<Longrightarrow> find (del k m) k' = (if k' = k then None else find m k')"
    and ok_put: "ok m \<Longrightarrow> ok (put k v m)"
    and ok_del: "ok m \<Longrightarrow> ok (del k m)"
    and canonical: "ok m \<Longrightarrow> ok m' \<Longrightarrow> (\<And>k. find m k = find m' k) \<Longrightarrow> m = m'"
begin

lemma put_same: "ok m \<Longrightarrow> find m k = Some v \<Longrightarrow> put k v m = m"
  by (rule canonical) (auto simp: find_put ok_put)

lemma put_put: "ok m \<Longrightarrow> put k v (put k w m) = put k v m"
  by (rule canonical) (auto simp: find_put ok_put)

lemma put_commute: "ok m \<Longrightarrow> k \<noteq> k' \<Longrightarrow> put k v (put k' v' m) = put k' v' (put k v m)"
  by (rule canonical) (auto simp: find_put ok_put)

lemma del_put_absent: "ok m \<Longrightarrow> find m k = None \<Longrightarrow> del k (put k v m) = m"
  by (rule canonical) (auto simp: find_put find_del ok_put ok_del)

lemma del_absent: "ok m \<Longrightarrow> find m k = None \<Longrightarrow> del k m = m"
  by (rule canonical) (auto simp: find_del ok_del)

lemma put_change: "ok m \<Longrightarrow> put k v m = m \<longleftrightarrow> find m k = Some v"
  by (metis find_put put_same)

lemma ok_fold_put: "ok m \<Longrightarrow> ok (fold (\<lambda>k. put k (f k)) ks m)"
  by (induction ks arbitrary: m) (auto simp: ok_put)

lemma find_fold_put:
  "ok m \<Longrightarrow> find (fold (\<lambda>k. put k (f k)) ks m) k = (if k \<in> set ks then Some (f k) else find m k)"
  by (induction ks arbitrary: m) (auto simp: ok_put find_put)

end

interpretation om: keyed_map om_find om_set om_erase om_ok
  by unfold_locales (simp_all add: om_find_set om_find_erase om_ok_set om_ok_erase om_ext)

lemmas om_laws [store_simps] = om_find_set om_find_erase om_ok_set om_ok_erase

lemma om_emplace_find:
  "om_ok m \<Longrightarrow> om_find (om_emplace k v m) k' =
     (if k' = k \<and> om_find m k = None then Some v else om_find m k')"
  by (auto simp: om_emplace_def om_find_set split: option.split)

lemma om_ok_emplace: "om_ok m \<Longrightarrow> om_ok (om_emplace k v m)"
  by (auto simp: om_emplace_def om_ok_set split: option.split)

section \<open>Fallible sequences\<close>

text \<open>A step that may leave with an error, and a guard \<^verbatim>\<open>if (!b) { err = e; return false; }\<close>.\<close>

definition ebind :: "'e + 'a \<Rightarrow> ('a \<Rightarrow> 'e + 'b) \<Rightarrow> 'e + 'b" where
  "ebind r f = (case r of Inl e \<Rightarrow> Inl e | Inr a \<Rightarrow> f a)"

definition require :: "bool \<Rightarrow> 'e \<Rightarrow> 'e + unit" where
  "require b e = (if b then Inr () else Inl e)"

definition some_or :: "'a option \<Rightarrow> 'e \<Rightarrow> 'e + 'a" where
  "some_or x e = (case x of None \<Rightarrow> Inl e | Some a \<Rightarrow> Inr a)"

lemma ebind_simps [simp]: "ebind (Inl e) f = Inl e" "ebind (Inr a) f = f a"
  by (simp_all add: ebind_def)

lemma ebind_Inr: "ebind r f = Inr b \<longleftrightarrow> (\<exists>a. r = Inr a \<and> f a = Inr b)"
  by (cases r) simp_all

lemma require_Inr: "require b e = Inr u \<longleftrightarrow> b"
  by (simp add: require_def)

lemma require_simps [simp]: "require True e = Inr ()" "require False e = Inl e"
  by (simp_all add: require_def)

lemma some_or_Inr: "some_or x e = Inr a \<longleftrightarrow> x = Some a"
  by (cases x) (simp_all add: some_or_def)

lemma some_or_simps [simp]: "some_or None e = Inl e" "some_or (Some a) e = Inr a"
  by (simp_all add: some_or_def)

lemmas ok_simps = ebind_Inr require_Inr some_or_Inr

end
