(* ===== verification/Det_Rand.thy ===== *)
theory Det_Rand
  imports Prelude
begin

text \<open>
  The process-wide deterministic generator of \<^verbatim>\<open>src/harness/cmp_ecdsa_online/src/det_rand.cpp\<close>:
  a SHA-512 counter-mode expander behind OpenSSL's \<^verbatim>\<open>RAND_METHOD\<close>. \<^verbatim>\<open>SHA512\<close> and the
  dispatch of \<^verbatim>\<open>RAND_bytes\<close> belong to OpenSSL and are arguments of the definitions. The
  abstract view of a generator state is an endless byte stream; a draw returns its prefix and
  leaves its tail. The locale \<open>byte_stream\<close> states that contract, and the facts about sequences of
  draws are proved in it once.
\<close>

section \<open>State and operations\<close>

abbreviation (input) sha512_digest_length :: nat where
  "sha512_digest_length \<equiv> 64"

record drbg_state =
  d_key :: bytes
  d_counter :: u64
  d_block :: bytes
  d_block_used :: nat
  d_drawn :: u64
  d_seeded :: bool

definition g_state_init :: drbg_state where
  "g_state_init = \<lparr>d_key = replicate sha512_digest_length 0, d_counter = 0,
     d_block = replicate sha512_digest_length 0, d_block_used = sha512_digest_length,
     d_drawn = 0, d_seeded = False\<rparr>"

definition refill :: "(bytes \<Rightarrow> bytes) \<Rightarrow> drbg_state \<Rightarrow> drbg_state" where
  "refill sha512 st =
     st\<lparr>d_block := sha512 (d_key st @ le_bytes 8 (d_counter st)),
        d_counter := d_counter st + 1,
        d_block_used := 0\<rparr>"

text \<open>The \<^verbatim>\<open>while (remaining > 0)\<close> loop of \<^verbatim>\<open>det_bytes\<close>: the bytes copied out and the state.\<close>

function det_bytes_loop :: "(bytes \<Rightarrow> bytes) \<Rightarrow> nat \<Rightarrow> drbg_state \<Rightarrow> bytes \<times> drbg_state" where
  "det_bytes_loop sha512 remaining st =
     (if remaining = 0 then ([], st)
      else let st1 = (if sha512_digest_length \<le> d_block_used st then refill sha512 st else st);
               n = min remaining (sha512_digest_length - d_block_used st1);
               out = take n (drop (d_block_used st1) (d_block st1));
               st2 = st1\<lparr>d_block_used := d_block_used st1 + n,
                         d_drawn := d_drawn st1 + of_nat n\<rparr>;
               (rest, st3) = det_bytes_loop sha512 (remaining - n) st2
           in (out @ rest, st3))"
  by pat_completeness auto
termination
  by (relation "measure (\<lambda>(sha, remaining, st). remaining)") (auto simp: refill_def)

declare det_bytes_loop.simps [simp del]

text \<open>\<^verbatim>\<open>det_bytes\<close>: the OpenSSL status, the bytes written to the caller's buffer, the new state.\<close>

definition det_bytes :: "(bytes \<Rightarrow> bytes) \<Rightarrow> int \<Rightarrow> drbg_state \<Rightarrow> int \<times> bytes \<times> drbg_state" where
  "det_bytes sha512 num st =
     (if num < 0 then (0, [], st)
      else if \<not> d_seeded st then (0, [], st)
      else let (out, st') = det_bytes_loop sha512 (nat num) st in (1, out, st'))"

definition det_seed :: "bytes \<Rightarrow> drbg_state \<Rightarrow> int \<times> drbg_state" where
  "det_seed buf st = (1, st)"

definition det_add :: "bytes \<Rightarrow> drbg_state \<Rightarrow> int \<times> drbg_state" where
  "det_add buf st = (1, st)"

definition reseed :: "(bytes \<Rightarrow> bytes) \<Rightarrow> u64 \<Rightarrow> drbg_state \<Rightarrow> drbg_state" where
  "reseed sha512 seed st =
     st\<lparr>d_key := sha512 (le_bytes 8 seed), d_counter := 0,
        d_block_used := sha512_digest_length, d_drawn := 0, d_seeded := True\<rparr>"

definition reseed_with_label :: "(bytes \<Rightarrow> bytes) \<Rightarrow> u64 \<Rightarrow> string \<Rightarrow> drbg_state \<Rightarrow> drbg_state" where
  "reseed_with_label sha512 seed label st =
     (let material = le_bytes 8 seed @ string_bytes label
      in st\<lparr>d_key := sha512 material, d_counter := 0,
            d_block_used := sha512_digest_length, d_drawn := 0, d_seeded := True\<rparr>)"

definition bytes_drawn :: "drbg_state \<Rightarrow> u64" where
  "bytes_drawn st = d_drawn st"

text \<open>
  What the harness uses of OpenSSL: the digest, whether \<^verbatim>\<open>RAND_set_rand_method\<close> accepts the
  method, whether \<^verbatim>\<open>RAND_get_rand_method\<close> then reports it, and \<^verbatim>\<open>RAND_bytes\<close> itself.
\<close>

record openssl =
  o_sha512 :: "bytes \<Rightarrow> bytes"
  o_set_rand_method :: int
  o_method_is_ours :: bool
  o_rand_bytes :: "int \<Rightarrow> drbg_state \<Rightarrow> int \<times> bytes \<times> drbg_state"

record rng_globals =
  g_state :: drbg_state
  g_installed :: bool

definition install_deterministic_rand :: "openssl \<Rightarrow> rng_globals \<Rightarrow> bool \<times> rng_globals" where
  "install_deterministic_rand ossl g =
     (if g_installed g then (True, g)
      else if o_set_rand_method ossl \<noteq> 1 then (False, g)
      else (True, g\<lparr>g_installed := True\<rparr>))"

definition rand_bytes_g :: "openssl \<Rightarrow> int \<Rightarrow> rng_globals \<Rightarrow> int \<times> bytes \<times> rng_globals" where
  "rand_bytes_g ossl num g =
     (let (r, out, st) = o_rand_bytes ossl num (g_state g) in (r, out, g\<lparr>g_state := st\<rparr>))"

definition reseed_g :: "openssl \<Rightarrow> u64 \<Rightarrow> rng_globals \<Rightarrow> rng_globals" where
  "reseed_g ossl seed g = g\<lparr>g_state := reseed (o_sha512 ossl) seed (g_state g)\<rparr>"

definition self_test :: "openssl \<Rightarrow> rng_globals \<Rightarrow> bool \<times> rng_globals" where
  "self_test ossl g0 =
     (let (inst, g) = install_deterministic_rand ossl g0 in
      if \<not> inst then (False, g) else
      if \<not> o_method_is_ours ossl then (False, g) else
      let (ra, a, g) = rand_bytes_g ossl 96 (reseed_g ossl 0xA5A5A5A5 g) in
      if ra \<noteq> 1 then (False, g) else
      let (rb, b, g) = rand_bytes_g ossl 96 (reseed_g ossl 0xA5A5A5A5 g) in
      if rb \<noteq> 1 then (False, g) else
      if a \<noteq> b then (False, g) else
      let (rc, c, g) = rand_bytes_g ossl 96 (reseed_g ossl 0x5A5A5A5A g) in
      if rc \<noteq> 1 then (False, g) else
      if a = c then (False, g) else
      let (rd, d1, g) = rand_bytes_g ossl 33 (reseed_g ossl 0xA5A5A5A5 g) in
      if rd \<noteq> 1 then (False, g) else
      let (re, d2, g) = rand_bytes_g ossl 63 g in
      if re \<noteq> 1 then (False, g) else
      if a \<noteq> d1 @ d2 then (False, g) else (True, g))"

section \<open>The contract of a byte stream\<close>

text \<open>Successive draws of the given sizes, their output concatenated.\<close>

primrec draws :: "(nat \<Rightarrow> 's \<Rightarrow> bytes \<times> 's) \<Rightarrow> nat list \<Rightarrow> 's \<Rightarrow> bytes \<times> 's" where
  "draws draw [] s = ([], s)"
| "draws draw (n # ns) s = (let (a, s1) = draw n s; (b, s2) = draws draw ns s1 in (a @ b, s2))"

locale byte_stream =
  fixes draw :: "nat \<Rightarrow> 's \<Rightarrow> bytes \<times> 's"
    and stream :: "'s \<Rightarrow> nat \<Rightarrow> byte"
    and ok :: "'s \<Rightarrow> bool"
  assumes draw_out: "ok s \<Longrightarrow> fst (draw n s) = map (stream s) [0..<n]"
    and draw_stream: "ok s \<Longrightarrow> stream (snd (draw n s)) i = stream s (n + i)"
    and draw_ok: "ok s \<Longrightarrow> ok (snd (draw n s))"
begin

lemma length_draw: "ok s \<Longrightarrow> length (fst (draw n s)) = n"
  by (simp add: draw_out)

lemma draws_out: "ok s \<Longrightarrow> fst (draws draw ns s) = map (stream s) [0..<sum_list ns]"
proof (induction ns arbitrary: s)
  case (Cons n ns)
  obtain a s1 where d: "draw n s = (a, s1)" by fastforce
  have ok1: "ok s1" and st: "\<And>i. stream s1 i = stream s (n + i)" and a: "a = map (stream s) [0..<n]"
    using Cons.prems draw_ok [of s n] draw_stream [of s n] draw_out [of s n] d by auto
  have "map (stream s) [0..<n + k] = map (stream s) [0..<n] @ map (stream s1) [0..<k]" for k
    by (induction k) (auto simp: st)
  with Cons.IH [OF ok1] d a show ?case by (auto simp: case_prod_beta)
qed simp

lemma draws_single: "ok s \<Longrightarrow> fst (draws draw ns s) = fst (draw (sum_list ns) s)"
  by (simp add: draws_out draw_out)

lemma draw_cong:
  "ok s \<Longrightarrow> ok t \<Longrightarrow> (\<And>i. stream s i = stream t i) \<Longrightarrow> fst (draw n s) = fst (draw n t)"
  by (simp add: draw_out)

lemma draw_twice:
  assumes "ok s"
  shows "fst (draw m s) @ fst (draw n (snd (draw m s))) = fst (draw (m + n) s)"
  using draws_single [OF assms, of "[m, n]"] by (simp add: case_prod_beta)

end

section \<open>The generator implements the stream of its key\<close>

definition keystream_byte :: "(bytes \<Rightarrow> bytes) \<Rightarrow> bytes \<Rightarrow> u64 \<Rightarrow> nat \<Rightarrow> byte" where
  "keystream_byte sha512 key ctr j =
     sha512 (key @ le_bytes 8 (ctr + of_nat (j div sha512_digest_length))) ! (j mod sha512_digest_length)"

definition drbg_stream :: "(bytes \<Rightarrow> bytes) \<Rightarrow> drbg_state \<Rightarrow> nat \<Rightarrow> byte" where
  "drbg_stream sha512 st i =
     (let left = sha512_digest_length - d_block_used st
      in if i < left then d_block st ! (d_block_used st + i)
         else keystream_byte sha512 (d_key st) (d_counter st) (i - left))"

definition drbg_ok :: "(bytes \<Rightarrow> bytes) \<Rightarrow> drbg_state \<Rightarrow> bool" where
  "drbg_ok sha512 st \<longleftrightarrow>
     length (d_block st) = sha512_digest_length \<and> d_block_used st \<le> sha512_digest_length
     \<and> (\<forall>m. length (sha512 m) = sha512_digest_length)"

lemma refill_ok: "drbg_ok sha st \<Longrightarrow> drbg_ok sha (refill sha st)"
  by (simp add: drbg_ok_def refill_def)

lemma refill_stream:
  assumes "drbg_ok sha st" "sha512_digest_length \<le> d_block_used st"
  shows "drbg_stream sha (refill sha st) i = drbg_stream sha st i"
proof (cases "i < 64")
  case True
  with assms show ?thesis by (simp add: drbg_stream_def refill_def keystream_byte_def)
next
  case False
  have wrap: "d_counter st + 1 + (of_nat ((i - 64) div 64) :: u64) = d_counter st + of_nat (i div 64)"
  proof -
    have "i div 64 = Suc ((i - 64) div 64)" using False by (simp add: le_div_geq)
    then show ?thesis by simp
  qed
  have "(i - 64) mod 64 = i mod 64" using False by (simp add: le_mod_geq)
  moreover have "1 + (of_nat ((i - 64) div 64) :: u64) = of_nat (i div 64)"
    using wrap by (simp add: add.assoc)
  ultimately show ?thesis using False assms
    by (simp add: drbg_stream_def refill_def keystream_byte_def add.assoc)
qed

lemma advance_stream:
  assumes "d_block_used st + n \<le> sha512_digest_length"
  shows "drbg_stream sha (st\<lparr>d_block_used := d_block_used st + n, d_drawn := w\<rparr>) i
    = drbg_stream sha st (n + i)"
  using assms by (auto simp: drbg_stream_def Let_def add.assoc add.commute add.left_commute)

lemma copy_stream:
  assumes "drbg_ok sha st" "d_block_used st + n \<le> sha512_digest_length"
  shows "take n (drop (d_block_used st) (d_block st)) = map (drbg_stream sha st) [0..<n]"
  using assms by (intro nth_equalityI) (auto simp: drbg_ok_def drbg_stream_def Let_def)

lemma det_bytes_loop_correct:
  assumes "drbg_ok sha st" and "det_bytes_loop sha n st = (out, st')"
  shows "out = map (drbg_stream sha st) [0..<n]
    \<and> (\<forall>i. drbg_stream sha st' i = drbg_stream sha st (n + i))
    \<and> drbg_ok sha st' \<and> d_drawn st' = d_drawn st + of_nat n"
  using assms
proof (induction sha n st arbitrary: out st' rule: det_bytes_loop.induct)
  case (1 sha n st)
  show ?case
  proof (cases "n = 0")
    case True
    with 1 show ?thesis by (simp add: det_bytes_loop.simps)
  next
    case False
    define st1 where "st1 = (if 64 \<le> d_block_used st then refill sha st else st)"
    define k where "k = min n (64 - d_block_used st1)"
    define st2 where "st2 = st1\<lparr>d_block_used := d_block_used st1 + k, d_drawn := d_drawn st1 + of_nat k\<rparr>"
    obtain rest st3 where r: "det_bytes_loop sha (n - k) st2 = (rest, st3)" by fastforce
    have ok1: "drbg_ok sha st1" using 1 by (simp add: st1_def refill_ok)
    have s1: "drbg_stream sha st1 i = drbg_stream sha st i" for i
      using 1 by (simp add: st1_def refill_stream)
    have lt: "d_block_used st1 < 64" by (simp add: st1_def refill_def)
    then have k: "d_block_used st1 + k \<le> 64" "0 < k" "k \<le> n" using False by (auto simp: k_def)
    have ok2: "drbg_ok sha st2" using ok1 k by (simp add: drbg_ok_def st2_def)
    have s2: "drbg_stream sha st2 i = drbg_stream sha st (k + i)" for i
      using advance_stream [OF k(1), of sha] s1 by (simp add: st2_def)
    have IH: "rest = map (drbg_stream sha st2) [0..<n - k]
        \<and> (\<forall>i. drbg_stream sha st3 i = drbg_stream sha st2 ((n - k) + i))
        \<and> drbg_ok sha st3 \<and> d_drawn st3 = d_drawn st2 + of_nat (n - k)"
      by (rule "1.IH" [OF False st1_def k_def refl st2_def ok2 r])
    have res: "out = take k (drop (d_block_used st1) (d_block st1)) @ rest" "st' = st3"
      using "1.prems"(2) False r
      by (simp_all add: det_bytes_loop.simps [of sha n st] Let_def st1_def k_def st2_def)
    have "map (drbg_stream sha st) [0..<n]
        = map (drbg_stream sha st) [0..<k] @ map (drbg_stream sha st2) [0..<n - k]"
      using k(3) by (intro nth_equalityI) (auto simp: nth_append s2)
    moreover have "take k (drop (d_block_used st1) (d_block st1)) = map (drbg_stream sha st) [0..<k]"
      using copy_stream [OF ok1 k(1)] s1 by simp
    moreover have "d_drawn st3 = d_drawn st + of_nat n"
      using IH k by (simp add: st2_def st1_def refill_def of_nat_diff)
    ultimately show ?thesis using IH res k s2 by (simp add: add.assoc)
  qed
qed

interpretation drbg: byte_stream "det_bytes_loop sha" "drbg_stream sha" "drbg_ok sha" for sha
  by unfold_locales (use det_bytes_loop_correct prod.collapse in metis)+

lemma reseed_with_label_ok:
  "drbg_ok sha st \<Longrightarrow> drbg_ok sha (reseed_with_label sha seed label st)"
  by (simp add: drbg_ok_def reseed_with_label_def Let_def)

lemma reseed_ok: "drbg_ok sha st \<Longrightarrow> drbg_ok sha (reseed sha seed st)"
  by (simp add: drbg_ok_def reseed_def)

lemma reseed_is_empty_label: "reseed sha seed st = reseed_with_label sha seed '''' st"
  by (simp add: reseed_def reseed_with_label_def string_bytes_def)

lemma reseed_with_label_stream:
  "drbg_stream sha (reseed_with_label sha seed label st) i
   = keystream_byte sha (sha (le_bytes 8 seed @ string_bytes label)) 0 i"
  by (simp add: drbg_stream_def reseed_with_label_def Let_def)

lemma det_bytes_seeded:
  "d_seeded st \<Longrightarrow> det_bytes sha (int n) st
     = (1, fst (det_bytes_loop sha n st), snd (det_bytes_loop sha n st))"
  by (simp add: det_bytes_def case_prod_beta)

lemma refill_seeded [simp]: "d_seeded (refill sha st) = d_seeded st"
  by (simp add: refill_def)

lemma det_bytes_loop_seeded: "d_seeded (snd (det_bytes_loop sha n st)) = d_seeded st"
proof (induction sha n st rule: det_bytes_loop.induct)
  case (1 sha n st)
  then show ?case
    by (subst det_bytes_loop.simps) (auto simp: Let_def case_prod_beta)
qed

section \<open>Properties\<close>

definition sample_sha512 :: "bytes \<Rightarrow> bytes" where
  "sample_sha512 m = take sha512_digest_length (m @ replicate sha512_digest_length 0)"

lemma sample_sha512_length [simp]: "length (sample_sha512 m) = sha512_digest_length"
  by (simp add: sample_sha512_def)

lemma g_state_init_ok: "drbg_ok sample_sha512 g_state_init"
  by (simp add: drbg_ok_def g_state_init_def)

text \<open>C21: a seeded generator refines an endless byte stream determined by its key, counter and
  unread block: \<^verbatim>\<open>det_bytes(num)\<close> with \<open>num \<ge> 0\<close> succeeds, returns exactly the next \<open>num\<close>
  stream bytes, leaves the stream advanced by \<open>num\<close> and adds \<open>num\<close> to the drawn counter
  (modulo 2 to the 64).\<close>

theorem det_bytes_refines_stream:
  assumes "drbg_ok sha512 st" and "d_seeded st"
  shows "\<exists>out st'. det_bytes sha512 (int n) st = (1, out, st')
    \<and> out = map (drbg_stream sha512 st) [0..<n]
    \<and> (\<forall>i. drbg_stream sha512 st' i = drbg_stream sha512 st (n + i))
    \<and> bytes_drawn st' = bytes_drawn st + of_nat n"
  using det_bytes_loop_correct [OF assms(1), of n] assms(2)
  by (cases "det_bytes_loop sha512 n st") (auto simp: det_bytes_seeded bytes_drawn_def)

theorem det_bytes_refines_stream_witness:
  "drbg_ok sample_sha512 (reseed sample_sha512 7 g_state_init)
   \<and> (\<exists>out st'. det_bytes sample_sha512 (int 70) (reseed sample_sha512 7 g_state_init) = (1, out, st')
        \<and> length out = 70 \<and> bytes_drawn st' = 70)"
proof -
  have ok: "drbg_ok sample_sha512 (reseed sample_sha512 7 g_state_init)"
    by (rule reseed_ok [OF g_state_init_ok])
  have sd: "d_seeded (reseed sample_sha512 7 g_state_init)"
    and d0: "bytes_drawn (reseed sample_sha512 7 g_state_init) = 0"
    by (simp_all add: reseed_def bytes_drawn_def)
  show ?thesis
    using ok det_bytes_refines_stream [OF ok sd, of 70] d0 by auto
qed

text \<open>Reseeding makes a case reproducible whatever was drawn before it: after
  \<^verbatim>\<open>reseed_with_label(seed, label)\<close> any sequence of draw sizes returns the same bytes from any
  two earlier generator states, and the concatenation is the same as one draw of the total size
  (draws are stream-continuous, never block-aligned).\<close>

theorem reseed_makes_draws_reproducible:
  assumes "drbg_ok sha512 st" and "drbg_ok sha512 st'"
  shows "fst (draws (det_bytes_loop sha512) ns (reseed_with_label sha512 seed label st))
       = fst (det_bytes_loop sha512 (sum_list ns) (reseed_with_label sha512 seed label st'))"
proof -
  let ?s = "reseed_with_label sha512 seed label st" and ?t = "reseed_with_label sha512 seed label st'"
  have ok: "drbg_ok sha512 ?s" "drbg_ok sha512 ?t"
    using assms by (simp_all add: reseed_with_label_ok)
  have "fst (det_bytes_loop sha512 (sum_list ns) ?s) = fst (det_bytes_loop sha512 (sum_list ns) ?t)"
    by (rule drbg.draw_cong [OF ok]) (simp add: reseed_with_label_stream)
  with drbg.draws_single [OF ok(1), of ns] show ?thesis by simp
qed

theorem reseed_makes_draws_reproducible_witness:
  "fst (draws (det_bytes_loop sample_sha512) [33, 63] (reseed_with_label sample_sha512 1 ''tx'' g_state_init))
   = fst (det_bytes_loop sample_sha512 96
       (reseed_with_label sample_sha512 1 ''tx'' (refill sample_sha512 g_state_init)))"
  using reseed_makes_draws_reproducible
    [OF g_state_init_ok refill_ok [OF g_state_init_ok], of "[33, 63]" 1 "''tx''"] by simp

lemma rand_bytes_g_ours:
  assumes "o_rand_bytes ossl = det_bytes (o_sha512 ossl)" and "d_seeded (g_state g)"
  shows "rand_bytes_g ossl (int n) g
    = (1, fst (det_bytes_loop (o_sha512 ossl) n (g_state g)),
       g\<lparr>g_state := snd (det_bytes_loop (o_sha512 ossl) n (g_state g))\<rparr>)"
  using assms by (simp add: rand_bytes_g_def det_bytes_seeded case_prod_beta)

text \<open>The first \<open>n\<close> bytes of the stream that \<^verbatim>\<open>reseed(seed)\<close> starts.\<close>

definition seed_stream :: "(bytes \<Rightarrow> bytes) \<Rightarrow> u64 \<Rightarrow> nat \<Rightarrow> bytes" where
  "seed_stream sha512 seed n = map (keystream_byte sha512 (sha512 (le_bytes 8 seed)) 0) [0..<n]"

lemma seed_stream_split:
  "seed_stream sha seed (m + n)
   = seed_stream sha seed m @ map (\<lambda>i. keystream_byte sha (sha (le_bytes 8 seed)) 0 (m + i)) [0..<n]"
  by (intro nth_equalityI) (auto simp: seed_stream_def nth_append)

lemma reseed_g_draw:
  assumes ours: "o_rand_bytes ossl = det_bytes (o_sha512 ossl)"
    and ok: "drbg_ok (o_sha512 ossl) (g_state g)"
  shows "\<exists>g'. rand_bytes_g ossl (int n) (reseed_g ossl seed g)
      = (1, seed_stream (o_sha512 ossl) seed n, g')
    \<and> drbg_ok (o_sha512 ossl) (g_state g') \<and> d_seeded (g_state g')
    \<and> (\<forall>i. drbg_stream (o_sha512 ossl) (g_state g') i
           = keystream_byte (o_sha512 ossl) (o_sha512 ossl (le_bytes 8 seed)) 0 (n + i))"
proof (intro exI conjI allI)
  let ?sha = "o_sha512 ossl"
  let ?st = "reseed ?sha seed (g_state g)"
  have okr: "drbg_ok ?sha ?st" by (rule reseed_ok [OF ok])
  have str: "drbg_stream ?sha ?st i = keystream_byte ?sha (?sha (le_bytes 8 seed)) 0 i" for i
    by (simp add: drbg_stream_def reseed_def)
  let ?g = "reseed_g ossl seed g\<lparr>g_state := snd (det_bytes_loop ?sha n ?st)\<rparr>"
  have sd: "d_seeded ?st" by (simp add: reseed_def)
  show "rand_bytes_g ossl (int n) (reseed_g ossl seed g)
      = (1, seed_stream ?sha seed n, ?g)"
    using rand_bytes_g_ours [OF ours, of "reseed_g ossl seed g" n] sd drbg.draw_out [OF okr, of n] str
    by (simp add: reseed_g_def seed_stream_def)
  show "drbg_ok ?sha (g_state ?g)" using drbg.draw_ok [OF okr, of n] by simp
  show "d_seeded (g_state ?g)" using sd by (simp add: det_bytes_loop_seeded)
  show "drbg_stream ?sha (g_state ?g) i = keystream_byte ?sha (?sha (le_bytes 8 seed)) 0 (n + i)" for i
    using drbg.draw_stream [OF okr, of n i] str by simp
qed

text \<open>When OpenSSL accepts the method, reports it and dispatches \<^verbatim>\<open>RAND_bytes\<close> to it, the
  self test passes exactly when the two probe seeds give different 96-byte streams: the
  same-seed comparison and the split draw of 33 and 63 bytes never fail on their own. When
  OpenSSL refuses the method or reports another one, the self test fails.\<close>

theorem self_test_passes_iff_seeds_separate:
  assumes "g_installed g \<or> o_set_rand_method ossl = 1"
    and "o_rand_bytes ossl = det_bytes (o_sha512 ossl)"
    and "drbg_ok (o_sha512 ossl) (g_state g)"
  shows "fst (self_test ossl g) \<longleftrightarrow>
    o_method_is_ours ossl
    \<and> seed_stream (o_sha512 ossl) 0xA5A5A5A5 96 \<noteq> seed_stream (o_sha512 ossl) 0x5A5A5A5A 96"
proof -
  let ?sha = "o_sha512 ossl" and ?A = "0xA5A5A5A5 :: u64" and ?B = "0x5A5A5A5A :: u64"
  note draw = reseed_g_draw [OF assms(2)]
  obtain g0 where i: "install_deterministic_rand ossl g = (True, g0)" and ok0: "drbg_ok ?sha (g_state g0)"
    using assms by (cases "g_installed g") (auto simp: install_deterministic_rand_def)
  obtain g1 where a: "rand_bytes_g ossl 96 (reseed_g ossl ?A g0) = (1, seed_stream ?sha ?A 96, g1)"
    and ok1: "drbg_ok ?sha (g_state g1)"
    using draw [OF ok0, of 96 ?A] by auto
  obtain g2 where b: "rand_bytes_g ossl 96 (reseed_g ossl ?A g1) = (1, seed_stream ?sha ?A 96, g2)"
    and ok2: "drbg_ok ?sha (g_state g2)"
    using draw [OF ok1, of 96 ?A] by auto
  obtain g3 where c: "rand_bytes_g ossl 96 (reseed_g ossl ?B g2) = (1, seed_stream ?sha ?B 96, g3)"
    and ok3: "drbg_ok ?sha (g_state g3)"
    using draw [OF ok2, of 96 ?B] by auto
  obtain g4 where d1: "rand_bytes_g ossl 33 (reseed_g ossl ?A g3) = (1, seed_stream ?sha ?A 33, g4)"
    and ok4: "drbg_ok ?sha (g_state g4)" and sd4: "d_seeded (g_state g4)"
    and s4: "\<forall>i. drbg_stream ?sha (g_state g4) i = keystream_byte ?sha (?sha (le_bytes 8 ?A)) 0 (33 + i)"
    using draw [OF ok3, of 33 ?A] by auto
  define d where "d = fst (det_bytes_loop ?sha 63 (g_state g4))"
  obtain g5 where d2: "rand_bytes_g ossl 63 g4 = (1, d, g5)"
    using rand_bytes_g_ours [OF assms(2) sd4, of 63] by (simp add: d_def)
  have split: "seed_stream ?sha ?A 33 @ d = seed_stream ?sha ?A 96"
    using seed_stream_split [of ?sha ?A 33 63] drbg.draw_out [OF ok4, of 63] s4
    by (simp add: d_def del: upt_rec_numeral)
  show ?thesis
    by (simp add: self_test_def i a b c d1 d2 split)
qed

definition sample_openssl :: openssl where
  "sample_openssl = \<lparr>o_sha512 = sample_sha512, o_set_rand_method = 1, o_method_is_ours = True,
     o_rand_bytes = det_bytes sample_sha512\<rparr>"

theorem self_test_passes_iff_seeds_separate_witness:
  "fst (self_test sample_openssl \<lparr>g_state = g_state_init, g_installed = False\<rparr>)"
proof -
  let ?g = "\<lparr>g_state = g_state_init, g_installed = False\<rparr>"
  have h: "g_installed ?g \<or> o_set_rand_method sample_openssl = 1"
    "o_rand_bytes sample_openssl = det_bytes (o_sha512 sample_openssl)"
    "drbg_ok (o_sha512 sample_openssl) (g_state ?g)"
    by (simp_all add: sample_openssl_def g_state_init_ok)
  have "keystream_byte sample_sha512 (sample_sha512 (le_bytes 8 (0xA5A5A5A5 :: u64))) 0 0
      \<noteq> keystream_byte sample_sha512 (sample_sha512 (le_bytes 8 (0x5A5A5A5A :: u64))) 0 0"
    by code_simp
  then have "seed_stream sample_sha512 0xA5A5A5A5 96 ! 0 \<noteq> seed_stream sample_sha512 0x5A5A5A5A 96 ! 0"
    by (simp add: seed_stream_def del: upt_rec_numeral)
  then show ?thesis
    using self_test_passes_iff_seeds_separate [OF h] by (auto simp: sample_openssl_def)
qed

end
