(* ===== verification/Snapshot_Codec.thy ===== *)
theory Snapshot_Codec
  imports Prelude
begin

text \<open>
  The frozen snapshot and its file format: the serialisation helpers, the bounds-checked reader,
  \<^verbatim>\<open>write_snapshot\<close> and \<^verbatim>\<open>read_snapshot\<close> of
  \<^verbatim>\<open>src/harness/cmp_ecdsa_online/src/snapshot.cpp\<close>. The reader keeps its sticky \<^verbatim>\<open>ok\<close> flag as in
  the source: a failed read does not stop the following ones. The locale \<open>field_codec\<close> states what
  one serialised field promises; it is interpreted on the 32-bit words, the 64-bit words, the
  length-prefixed blobs and the player records.
\<close>

section \<open>Data\<close>

record snapshot_player =
  sp_id :: u64
  sp_share :: bytes
  sp_public_share :: bytes
  sp_paillier_pub :: bytes
  sp_paillier_priv :: bytes
  sp_rp_pub :: bytes
  sp_rp_priv :: bytes

record snapshot =
  s_algorithm :: u32
  s_public_key :: bytes
  s_seed :: bytes
  s_t :: byte
  s_n :: byte
  s_players :: "snapshot_player list"

definition snapshot_default :: snapshot where
  "snapshot_default = \<lparr>s_algorithm = 0, s_public_key = [], s_seed = [], s_t = 0, s_n = 0, s_players = []\<rparr>"

definition player_ids :: "snapshot \<Rightarrow> u64 list" where
  "player_ids s = map sp_id (s_players s)"

definition SNAPSHOT_MAGIC :: bytes where
  "SNAPSHOT_MAGIC = string_bytes ''OCMPSNAP''"

definition SNAPSHOT_FORMAT_VERSION :: u32 where
  "SNAPSHOT_FORMAT_VERSION = 1"

section \<open>Writing\<close>

definition put_u32 :: "bytes \<Rightarrow> u32 \<Rightarrow> bytes" where
  "put_u32 b v = b @ be_bytes 4 v"

definition put_u64 :: "bytes \<Rightarrow> u64 \<Rightarrow> bytes" where
  "put_u64 b v = b @ be_bytes 8 v"

definition put_blob :: "bytes \<Rightarrow> bytes \<Rightarrow> bytes" where
  "put_blob b v = put_u32 b (of_nat (length v)) @ v"

definition put_player :: "bytes \<Rightarrow> snapshot_player \<Rightarrow> bytes" where
  "put_player b p =
     put_blob (put_blob (put_blob (put_blob (put_blob (put_blob (put_u64 b (sp_id p))
       (sp_share p)) (sp_public_share p)) (sp_paillier_pub p)) (sp_paillier_priv p))
       (sp_rp_pub p)) (sp_rp_priv p)"

text \<open>The byte vector \<^verbatim>\<open>b\<close> that \<^verbatim>\<open>write_snapshot\<close> builds before it opens the file.\<close>

definition snapshot_bytes :: "snapshot \<Rightarrow> bytes" where
  "snapshot_bytes s =
     (let b = SNAPSHOT_MAGIC;
          b = put_u32 b SNAPSHOT_FORMAT_VERSION;
          b = put_u32 b (s_algorithm s);
          b = put_blob b (s_public_key s);
          b = put_blob b (s_seed s);
          b = put_u32 b (ucast (s_t s));
          b = put_u32 b (ucast (s_n s));
          b = put_u32 b (of_nat (length (s_players s)))
      in foldl put_player b (s_players s))"

text \<open>
  The files the tools see: contents by path, the paths that can be opened for writing, and how
  many bytes a path's device takes before its stream goes bad.
\<close>

record file_system =
  fs_files :: "string \<Rightarrow> bytes option"
  fs_can_open :: "string \<Rightarrow> bool"
  fs_accepts :: "string \<Rightarrow> nat"

datatype snapshot_error =
    CannotOpenWriting string | WriteFailed string | CannotOpenReading string
  | BadMagic | UnsupportedFormat u32 | TruncatedHeader | TruncatedPlayer | TrailingBytes

definition write_snapshot :: "snapshot \<Rightarrow> string \<Rightarrow> file_system \<Rightarrow> (snapshot_error + unit) \<times> file_system" where
  "write_snapshot s path fs =
     (let b = snapshot_bytes s in
      if \<not> fs_can_open fs path then (Inl (CannotOpenWriting path), fs)
      else if fs_accepts fs path < length b
           then (Inl (WriteFailed path),
                 fs\<lparr>fs_files := (fs_files fs)(path \<mapsto> take (fs_accepts fs path) b)\<rparr>)
      else (Inr (), fs\<lparr>fs_files := (fs_files fs)(path \<mapsto> b)\<rparr>))"

section \<open>Reading\<close>

record reader =
  r_rest :: bytes
  r_ok :: bool

definition read_u32 :: "reader \<Rightarrow> u32 \<times> reader" where
  "read_u32 r =
     (if length (r_rest r) < 4 then (0, r\<lparr>r_ok := False\<rparr>)
      else (be_accum 0 (take 4 (r_rest r)), r\<lparr>r_rest := drop 4 (r_rest r)\<rparr>))"

definition read_u64 :: "reader \<Rightarrow> u64 \<times> reader" where
  "read_u64 r =
     (if length (r_rest r) < 8 then (0, r\<lparr>r_ok := False\<rparr>)
      else (be_accum 0 (take 8 (r_rest r)), r\<lparr>r_rest := drop 8 (r_rest r)\<rparr>))"

definition read_blob :: "reader \<Rightarrow> bytes \<times> reader" where
  "read_blob r =
     (let (n, r1) = read_u32 r in
      if \<not> r_ok r1 \<or> length (r_rest r1) < unat n then ([], r1\<lparr>r_ok := False\<rparr>)
      else (take (unat n) (r_rest r1), r1\<lparr>r_rest := drop (unat n) (r_rest r1)\<rparr>))"

definition read_player :: "reader \<Rightarrow> snapshot_player \<times> reader" where
  "read_player r0 =
     (let (i, r) = read_u64 r0;
          (share, r) = read_blob r;
          (pshare, r) = read_blob r;
          (ppub, r) = read_blob r;
          (ppriv, r) = read_blob r;
          (rpub, r) = read_blob r;
          (rpriv, r) = read_blob r
      in (\<lparr>sp_id = i, sp_share = share, sp_public_share = pshare, sp_paillier_pub = ppub,
           sp_paillier_priv = ppriv, sp_rp_pub = rpub, sp_rp_priv = rpriv\<rparr>, r))"

text \<open>The player loop; the error return leaves it at the first truncated record.\<close>

fun read_players :: "nat \<Rightarrow> reader \<Rightarrow> snapshot_player list \<Rightarrow> snapshot_error + (snapshot_player list \<times> reader)" where
  "read_players 0 r ps = Inr (ps, r)"
| "read_players (Suc n) r ps =
     (let (p, r) = read_player r in
      if \<not> r_ok r then Inl TruncatedPlayer else read_players n r (ps @ [p]))"

definition parse_snapshot :: "bytes \<Rightarrow> snapshot_error + snapshot" where
  "parse_snapshot b =
     (if length b < length SNAPSHOT_MAGIC \<or> take (length SNAPSHOT_MAGIC) b \<noteq> SNAPSHOT_MAGIC
      then Inl BadMagic
      else
        let r = \<lparr>r_rest = drop (length SNAPSHOT_MAGIC) b, r_ok = True\<rparr>;
            (fmt, r) = read_u32 r
        in if fmt \<noteq> SNAPSHOT_FORMAT_VERSION then Inl (UnsupportedFormat fmt)
        else
          let (algorithm, r) = read_u32 r;
              (public_key, r) = read_blob r;
              (seed, r) = read_blob r;
              (t, r) = read_u32 r;
              (n, r) = read_u32 r;
              (count, r) = read_u32 r
          in if \<not> r_ok r then Inl TruncatedHeader
          else case read_players (unat count) r [] of
            Inl e \<Rightarrow> Inl e
          | Inr (ps, r) \<Rightarrow>
              if r_rest r \<noteq> [] then Inl TrailingBytes
              else Inr \<lparr>s_algorithm = algorithm, s_public_key = public_key, s_seed = seed,
                        s_t = ucast t, s_n = ucast n, s_players = ps\<rparr>)"

definition read_snapshot :: "string \<Rightarrow> file_system \<Rightarrow> snapshot_error + snapshot" where
  "read_snapshot path fs =
     (case fs_files fs path of
        None \<Rightarrow> Inl (CannotOpenReading path)
      | Some b \<Rightarrow> parse_snapshot b)"

section \<open>What one serialised field promises\<close>

locale field_codec =
  fixes enc :: "'a \<Rightarrow> bytes"
    and dec :: "reader \<Rightarrow> 'a \<times> reader"
    and fits :: "'a \<Rightarrow> bool"
  assumes dec_enc: "r_ok r \<Longrightarrow> r_rest r = enc a @ bs \<Longrightarrow> fits a \<Longrightarrow> dec r = (a, r\<lparr>r_rest := bs\<rparr>)"
    and dec_inv: "dec r = (a, r') \<Longrightarrow> r_ok r' \<Longrightarrow> r_ok r \<and> fits a \<and> r_rest r = enc a @ r_rest r'"
begin

lemma dec_sticky: "\<not> r_ok r \<Longrightarrow> \<not> r_ok (snd (dec r))"
  using dec_inv by (metis prod.collapse)

lemma enc_unambiguous:
  assumes "fits a" "fits b" "enc a @ x = enc b @ y"
  shows "a = b \<and> x = y"
proof -
  let ?r = "\<lparr>r_rest = enc a @ x, r_ok = True\<rparr>"
  have "dec ?r = (a, ?r\<lparr>r_rest := x\<rparr>)" by (rule dec_enc) (simp_all add: assms(1))
  moreover have "dec ?r = (b, ?r\<lparr>r_rest := y\<rparr>)" by (rule dec_enc) (simp_all add: assms)
  ultimately show ?thesis by simp
qed

lemma truncated_fails:
  assumes "fits a" "enc a = bs @ cs" "cs \<noteq> []"
  shows "\<not> r_ok (snd (dec \<lparr>r_rest = bs, r_ok = True\<rparr>))"
proof
  let ?r = "\<lparr>r_rest = bs, r_ok = True\<rparr>"
  assume ok: "r_ok (snd (dec ?r))"
  obtain b r' where d: "dec ?r = (b, r')" by fastforce
  with ok dec_inv [OF d] have "fits b" "bs = enc b @ r_rest r'" by auto
  with assms have "enc a @ [] = enc b @ (r_rest r' @ cs)" by simp
  with assms \<open>fits b\<close> enc_unambiguous have "r_rest r' @ cs = []" by metis
  with assms show False by simp
qed

end

definition blob_bytes :: "bytes \<Rightarrow> bytes" where
  "blob_bytes v = put_blob [] v"

definition blob_fits :: "bytes \<Rightarrow> bool" where
  "blob_fits v \<longleftrightarrow> length v < 2 ^ 32"

definition player_bytes :: "snapshot_player \<Rightarrow> bytes" where
  "player_bytes p = put_player [] p"

definition player_fits :: "snapshot_player \<Rightarrow> bool" where
  "player_fits p \<longleftrightarrow> (\<forall>v\<in>set [sp_share p, sp_public_share p, sp_paillier_pub p, sp_paillier_priv p,
     sp_rp_pub p, sp_rp_priv p]. blob_fits v)"

lemma put_blob_append: "put_blob b v = b @ blob_bytes v"
  by (simp add: blob_bytes_def put_blob_def put_u32_def)

lemma put_player_append: "put_player b p = b @ player_bytes p"
  by (simp add: player_bytes_def put_player_def put_blob_append put_u64_def)

lemma player_bytes_fields:
  "player_bytes p = be_bytes 8 (sp_id p) @ blob_bytes (sp_share p) @ blob_bytes (sp_public_share p)
     @ blob_bytes (sp_paillier_pub p) @ blob_bytes (sp_paillier_priv p) @ blob_bytes (sp_rp_pub p)
     @ blob_bytes (sp_rp_priv p)"
  by (simp add: player_bytes_def put_player_def put_blob_append put_u64_def)

interpretation u32_codec: field_codec "be_bytes 4" read_u32 "\<lambda>_. True"
proof
  fix r :: reader and a :: u32 and bs
  assume "r_ok r" "r_rest r = be_bytes 4 a @ bs"
  then show "read_u32 r = (a, r\<lparr>r_rest := bs\<rparr>)" by (simp add: read_u32_def)
next
  fix r r' :: reader and a
  assume "read_u32 r = (a, r')" "r_ok r'"
  then show "r_ok r \<and> True \<and> r_rest r = be_bytes 4 a @ r_rest r'"
    by (auto simp: read_u32_def be_bytes_be_accum split: if_splits)
qed

interpretation u64_codec: field_codec "be_bytes 8" read_u64 "\<lambda>_. True"
proof
  fix r :: reader and a :: u64 and bs
  assume "r_ok r" "r_rest r = be_bytes 8 a @ bs"
  then show "read_u64 r = (a, r\<lparr>r_rest := bs\<rparr>)" by (simp add: read_u64_def)
next
  fix r r' :: reader and a
  assume "read_u64 r = (a, r')" "r_ok r'"
  then show "r_ok r \<and> True \<and> r_rest r = be_bytes 8 a @ r_rest r'"
    by (auto simp: read_u64_def be_bytes_be_accum split: if_splits)
qed

lemma unat_of_length: "blob_fits v \<Longrightarrow> unat (of_nat (length v) :: u32) = length v"
  by (simp add: blob_fits_def unat_of_nat)

lemma blob_bytes_eq: "blob_bytes v = be_bytes 4 (of_nat (length v) :: u32) @ v"
  by (simp add: blob_bytes_def put_blob_def put_u32_def)

interpretation blob_codec: field_codec blob_bytes read_blob blob_fits
proof
  fix r :: reader and a bs
  assume r: "r_ok r" "r_rest r = blob_bytes a @ bs" "blob_fits a"
  then have "read_u32 r = (of_nat (length a), r\<lparr>r_rest := a @ bs\<rparr>)"
    by (intro u32_codec.dec_enc) (simp_all add: blob_bytes_eq)
  with r show "read_blob r = (a, r\<lparr>r_rest := bs\<rparr>)"
    by (simp add: read_blob_def unat_of_length)
next
  fix r r' :: reader and a
  assume d: "read_blob r = (a, r')" and ok: "r_ok r'"
  obtain n r1 where n: "read_u32 r = (n, r1)" by fastforce
  from d n ok have r1: "r_ok r1" "unat n \<le> length (r_rest r1)" "a = take (unat n) (r_rest r1)"
      "r_rest r' = drop (unat n) (r_rest r1)"
    by (auto simp: read_blob_def split: if_splits)
  have "length a = unat n" using r1 by simp
  moreover have "unat n < 2 ^ 32" using unsigned_less [of n, where ?'a = nat] by simp
  ultimately have "blob_fits a" "be_bytes 4 n @ a = blob_bytes a"
    by (simp_all add: blob_fits_def blob_bytes_eq)
  moreover have "r_ok r" "r_rest r = be_bytes 4 n @ r_rest r1"
    using u32_codec.dec_inv [OF n r1(1)] by auto
  ultimately show "r_ok r \<and> blob_fits a \<and> r_rest r = blob_bytes a @ r_rest r'"
    using r1 by (metis append.assoc append_take_drop_id)
qed

lemmas field_decode = u32_codec.dec_enc u64_codec.dec_enc blob_codec.dec_enc

interpretation player_codec: field_codec player_bytes read_player player_fits
proof
  fix r :: reader and a bs
  assume "r_ok r" "r_rest r = player_bytes a @ bs" "player_fits a"
  then show "read_player r = (a, r\<lparr>r_rest := bs\<rparr>)"
    by (simp add: read_player_def player_fits_def player_bytes_fields field_decode)
next
  fix r r' :: reader and a
  assume d: "read_player r = (a, r')" and ok: "r_ok r'"
  obtain i r0 where 0: "read_u64 r = (i, r0)" by fastforce
  obtain v1 r1 where 1: "read_blob r0 = (v1, r1)" by fastforce
  obtain v2 r2 where 2: "read_blob r1 = (v2, r2)" by fastforce
  obtain v3 r3 where 3: "read_blob r2 = (v3, r3)" by fastforce
  obtain v4 r4 where 4: "read_blob r3 = (v4, r4)" by fastforce
  obtain v5 r5 where 5: "read_blob r4 = (v5, r5)" by fastforce
  obtain v6 r6 where 6: "read_blob r5 = (v6, r6)" by fastforce
  have a: "a = \<lparr>sp_id = i, sp_share = v1, sp_public_share = v2, sp_paillier_pub = v3,
      sp_paillier_priv = v4, sp_rp_pub = v5, sp_rp_priv = v6\<rparr>" and r6: "r' = r6"
    using d by (simp_all add: read_player_def 0 1 2 3 4 5 6)
  note inv6 = blob_codec.dec_inv [OF 6 ok [unfolded r6]]
  note inv5 = blob_codec.dec_inv [OF 5 conjunct1 [OF inv6]]
  note inv4 = blob_codec.dec_inv [OF 4 conjunct1 [OF inv5]]
  note inv3 = blob_codec.dec_inv [OF 3 conjunct1 [OF inv4]]
  note inv2 = blob_codec.dec_inv [OF 2 conjunct1 [OF inv3]]
  note inv1 = blob_codec.dec_inv [OF 1 conjunct1 [OF inv2]]
  note inv0 = u64_codec.dec_inv [OF 0 conjunct1 [OF inv1]]
  show "r_ok r \<and> player_fits a \<and> r_rest r = player_bytes a @ r_rest r'"
    using inv0 inv1 inv2 inv3 inv4 inv5 inv6 by (simp add: a r6 player_fits_def player_bytes_fields)
qed

section \<open>The whole file\<close>

definition snapshot_fits :: "snapshot \<Rightarrow> bool" where
  "snapshot_fits s \<longleftrightarrow> blob_fits (s_public_key s) \<and> blob_fits (s_seed s)
     \<and> list_all player_fits (s_players s) \<and> length (s_players s) < 2 ^ 32"

text \<open>The file with arbitrary 32-bit threshold and player-count words in the header.\<close>

definition snapshot_layout :: "snapshot \<Rightarrow> u32 \<Rightarrow> u32 \<Rightarrow> bytes" where
  "snapshot_layout s t n =
     SNAPSHOT_MAGIC @ be_bytes 4 SNAPSHOT_FORMAT_VERSION @ be_bytes 4 (s_algorithm s)
     @ blob_bytes (s_public_key s) @ blob_bytes (s_seed s) @ be_bytes 4 t @ be_bytes 4 n
     @ be_bytes 4 (of_nat (length (s_players s)) :: u32) @ concat (map player_bytes (s_players s))"

lemma foldl_put_player: "foldl put_player b ps = b @ concat (map player_bytes ps)"
  by (induction ps arbitrary: b) (simp_all add: put_player_append)

lemma snapshot_bytes_layout: "snapshot_bytes s = snapshot_layout s (ucast (s_t s)) (ucast (s_n s))"
  by (simp add: snapshot_bytes_def snapshot_layout_def Let_def put_u32_def put_blob_append foldl_put_player)

lemma read_players_append:
  "list_all player_fits ps \<Longrightarrow> r_ok r \<Longrightarrow> r_rest r = concat (map player_bytes ps) @ bs \<Longrightarrow>
   read_players (length ps) r acc = Inr (acc @ ps, r\<lparr>r_rest := bs\<rparr>)"
proof (induction ps arbitrary: r acc)
  case (Cons p ps)
  let ?bs = "concat (map player_bytes ps) @ bs"
  have "read_player r = (p, r\<lparr>r_rest := ?bs\<rparr>)"
    using Cons.prems by (intro player_codec.dec_enc) simp_all
  with Cons.prems Cons.IH [of "r\<lparr>r_rest := ?bs\<rparr>" "acc @ [p]"] show ?case by simp
qed simp

lemma parse_layout:
  assumes "snapshot_fits s"
  shows "parse_snapshot (snapshot_layout s t n @ bs)
    = (if bs = [] then Inr (s\<lparr>s_t := ucast t, s_n := ucast n\<rparr>) else Inl TrailingBytes)"
proof -
  have cnt: "unat (of_nat (length (s_players s)) :: u32) = length (s_players s)"
    using assms by (simp add: snapshot_fits_def unat_of_nat)
  have pl: "read_players (length (s_players s))
      \<lparr>r_rest = concat (map player_bytes (s_players s)) @ bs, r_ok = True\<rparr> []
      = Inr (s_players s, \<lparr>r_rest = bs, r_ok = True\<rparr>)"
    using assms by (subst read_players_append [where bs = bs]) (simp_all add: snapshot_fits_def)
  show ?thesis
    using assms
    by (simp add: parse_snapshot_def snapshot_layout_def snapshot_fits_def field_decode cnt pl)
qed

lemma read_players_inv:
  "read_players n r acc = Inr (ps, r') \<Longrightarrow> r_ok r \<Longrightarrow>
   \<exists>qs. ps = acc @ qs \<and> length qs = n \<and> list_all player_fits qs
     \<and> r_rest r = concat (map player_bytes qs) @ r_rest r'"
proof (induction n arbitrary: r acc)
  case (Suc n)
  obtain p r1 where p: "read_player r = (p, r1)" by fastforce
  with Suc.prems have ok: "r_ok r1" and rest: "read_players n r1 (acc @ [p]) = Inr (ps, r')"
    by (auto split: if_splits)
  from Suc.IH [OF rest ok] obtain qs where qs: "ps = acc @ p # qs" "length qs = n"
      "list_all player_fits qs" "r_rest r1 = concat (map player_bytes qs) @ r_rest r'"
    by auto
  from player_codec.dec_inv [OF p ok] qs show ?case
    by (intro exI [of _ "p # qs"]) simp
qed simp

lemma parse_snapshot_inv:
  assumes "parse_snapshot b = Inr s"
  shows "snapshot_fits s \<and> (\<exists>t n. ucast t = s_t s \<and> ucast n = s_n s \<and> b = snapshot_layout s t n)"
proof -
  let ?m = "length SNAPSHOT_MAGIC"
  from assms have magic: "take ?m b = SNAPSHOT_MAGIC"
    by (auto simp: parse_snapshot_def split: if_splits)
  obtain f r0 where 0: "read_u32 \<lparr>r_rest = drop ?m b, r_ok = True\<rparr> = (f, r0)" by fastforce
  obtain alg r1 where 1: "read_u32 r0 = (alg, r1)" by fastforce
  obtain pk r2 where 2: "read_blob r1 = (pk, r2)" by fastforce
  obtain sd r3 where 3: "read_blob r2 = (sd, r3)" by fastforce
  obtain t r4 where 4: "read_u32 r3 = (t, r4)" by fastforce
  obtain n r5 where 5: "read_u32 r4 = (n, r5)" by fastforce
  obtain c r6 where 6: "read_u32 r5 = (c, r6)" by fastforce
  from assms obtain ps r7 where f: "f = SNAPSHOT_FORMAT_VERSION" and ok6: "r_ok r6"
    and pl: "read_players (unat c) r6 [] = Inr (ps, r7)" and fin: "r_rest r7 = []"
    and s: "s = \<lparr>s_algorithm = alg, s_public_key = pk, s_seed = sd, s_t = ucast t, s_n = ucast n,
                 s_players = ps\<rparr>"
    by (auto simp: parse_snapshot_def 0 1 2 3 4 5 6 Let_def split: if_splits sum.splits)
  note inv6 = u32_codec.dec_inv [OF 6 ok6]
  note inv5 = u32_codec.dec_inv [OF 5 conjunct1 [OF inv6]]
  note inv4 = u32_codec.dec_inv [OF 4 conjunct1 [OF inv5]]
  note inv3 = blob_codec.dec_inv [OF 3 conjunct1 [OF inv4]]
  note inv2 = blob_codec.dec_inv [OF 2 conjunct1 [OF inv3]]
  note inv1 = u32_codec.dec_inv [OF 1 conjunct1 [OF inv2]]
  note inv0 = u32_codec.dec_inv [OF 0 conjunct1 [OF inv1]]
  from read_players_inv [OF pl ok6] fin have ps: "length ps = unat c" "list_all player_fits ps"
      "r_rest r6 = concat (map player_bytes ps)"
    by auto
  have "unat c < 2 ^ 32" using unsigned_less [of c, where ?'a = nat] by simp
  then have fits: "snapshot_fits s"
    using ps inv2 inv3 by (simp add: s snapshot_fits_def)
  have "drop ?m b = be_bytes 4 f @ be_bytes 4 alg @ blob_bytes pk @ blob_bytes sd @ be_bytes 4 t
      @ be_bytes 4 n @ be_bytes 4 c @ concat (map player_bytes ps)"
    using inv0 inv1 inv2 inv3 inv4 inv5 inv6 ps by simp
  moreover have "b = SNAPSHOT_MAGIC @ drop ?m b" by (metis append_take_drop_id magic)
  moreover have "c = of_nat (length ps)" by (simp add: ps(1))
  ultimately have "b = snapshot_layout s t n"
    by (simp add: snapshot_layout_def s f)
  with fits show ?thesis by (auto simp: s)
qed

lemma ucast_byte_u32 [simp]: "ucast (ucast (x :: byte) :: u32) = x"
  by (rule bit_word_eqI) (simp add: bit_simps)

lemma parse_snapshot_bytes: "snapshot_fits s \<Longrightarrow> parse_snapshot (snapshot_bytes s) = Inr s"
  using parse_layout [of s _ _ "[]"] by (simp add: snapshot_bytes_layout)

section \<open>Properties\<close>

definition sample_player :: "u64 \<Rightarrow> snapshot_player" where
  "sample_player i = \<lparr>sp_id = i, sp_share = [1], sp_public_share = [2, 3], sp_paillier_pub = [],
     sp_paillier_priv = [4], sp_rp_pub = [5], sp_rp_priv = [6, 7]\<rparr>"

definition sample_snapshot :: snapshot where
  "sample_snapshot = \<lparr>s_algorithm = 0, s_public_key = [9], s_seed = [8, 8], s_t = 2, s_n = 2,
     s_players = [sample_player 11, sample_player 12]\<rparr>"

lemma sample_snapshot_fits: "snapshot_fits sample_snapshot"
  by (simp add: snapshot_fits_def sample_snapshot_def sample_player_def player_fits_def blob_fits_def)

text \<open>C13: the snapshot file round-trips. Every snapshot whose blobs and player list fit the 32-bit
  length words is written to a file that \<^verbatim>\<open>read_snapshot\<close> reads back to exactly that snapshot, and
  no other file changes.\<close>

theorem write_read_snapshot_roundtrip:
  assumes "snapshot_fits s" and "fs_can_open fs path"
    and "length (snapshot_bytes s) \<le> fs_accepts fs path"
  shows "\<exists>fs'. write_snapshot s path fs = (Inr (), fs') \<and> read_snapshot path fs' = Inr s
    \<and> (\<forall>q. q \<noteq> path \<longrightarrow> fs_files fs' q = fs_files fs q)"
  using assms by (simp add: write_snapshot_def read_snapshot_def Let_def parse_snapshot_bytes)

theorem write_read_snapshot_roundtrip_witness:
  "\<exists>fs'. write_snapshot sample_snapshot ''snap''
       \<lparr>fs_files = Map.empty, fs_can_open = (\<lambda>_. True), fs_accepts = (\<lambda>_. 1000)\<rparr> = (Inr (), fs')
     \<and> read_snapshot ''snap'' fs' = Inr sample_snapshot"
proof -
  let ?fs = "\<lparr>fs_files = Map.empty, fs_can_open = (\<lambda>_. True), fs_accepts = (\<lambda>_. 1000)\<rparr>"
  have "length (snapshot_bytes sample_snapshot) \<le> 1000" by code_simp
  then show ?thesis
    using write_read_snapshot_roundtrip [OF sample_snapshot_fits, of ?fs "''snap''"] by auto
qed

text \<open>The reader accepts nothing but complete snapshot files. Bytes after a complete snapshot
  are rejected as trailing, and every proper prefix of a snapshot file is rejected, whatever field
  it is cut in.\<close>

theorem parse_rejects_truncated_and_extended:
  assumes "snapshot_fits s"
  shows "(\<forall>bs. bs \<noteq> [] \<longrightarrow> parse_snapshot (snapshot_bytes s @ bs) = Inl TrailingBytes)
    \<and> (\<forall>k < length (snapshot_bytes s). \<exists>e. parse_snapshot (take k (snapshot_bytes s)) = Inl e)"
proof (intro conjI allI impI)
  fix bs :: bytes assume "bs \<noteq> []"
  then show "parse_snapshot (snapshot_bytes s @ bs) = Inl TrailingBytes"
    using parse_layout [OF assms] by (simp add: snapshot_bytes_layout)
next
  fix k assume k: "k < length (snapshot_bytes s)"
  show "\<exists>e. parse_snapshot (take k (snapshot_bytes s)) = Inl e"
  proof (cases "parse_snapshot (take k (snapshot_bytes s))")
    case (Inr s')
    from parse_snapshot_inv [OF Inr] obtain t n where s': "snapshot_fits s'"
      "take k (snapshot_bytes s) = snapshot_layout s' t n" by blast
    have "snapshot_bytes s = snapshot_layout s' t n @ drop k (snapshot_bytes s)"
      by (metis append_take_drop_id s'(2))
    moreover have "drop k (snapshot_bytes s) \<noteq> []" using k by simp
    ultimately have "parse_snapshot (snapshot_bytes s) = Inl TrailingBytes"
      using parse_layout [OF s'(1)] by metis
    with parse_snapshot_bytes [OF assms] show ?thesis by simp
  qed simp
qed

theorem parse_rejects_truncated_and_extended_witness:
  "parse_snapshot (snapshot_bytes sample_snapshot @ [0]) = Inl TrailingBytes
   \<and> (\<exists>e. parse_snapshot (take 20 (snapshot_bytes sample_snapshot)) = Inl e)"
proof -
  have "20 < length (snapshot_bytes sample_snapshot)" by code_simp
  then show ?thesis
    using parse_rejects_truncated_and_extended [OF sample_snapshot_fits] by blast
qed

text \<open>C14: exactly which files are accepted. A byte vector parses to \<open>s\<close> if and only if it is the
  serialisation of \<open>s\<close> with some 32-bit words for the threshold and the player count whose low
  bytes are the ones of \<open>s\<close>: the format is otherwise unambiguous, but the three high bytes of both
  header words are ignored, so distinct files denote one snapshot.\<close>

theorem parse_snapshot_accepts_exactly:
  "parse_snapshot b = Inr s \<longleftrightarrow>
     snapshot_fits s \<and> (\<exists>t n. ucast t = s_t s \<and> ucast n = s_n s \<and> b = snapshot_layout s t n)"
proof
  assume "snapshot_fits s \<and> (\<exists>t n. ucast t = s_t s \<and> ucast n = s_n s \<and> b = snapshot_layout s t n)"
  then obtain t n where "snapshot_fits s" and t: "ucast t = s_t s" and n: "ucast n = s_n s"
    and b: "b = snapshot_layout s t n" by blast
  then show "parse_snapshot b = Inr s"
    using parse_layout [of s t n "[]"] by (simp add: t n b)
qed (rule parse_snapshot_inv)


end
