(* ===== verification/Mutators.thy ===== *)
theory Mutators
  imports Prelude
begin

unbundle bit_operations_syntax

text \<open>
  The wire mutations of \<^verbatim>\<open>src/harness/cmp_ecdsa_online/src/mutators.cpp\<close>. The messages are the
  structures of the signing library's public header that the harness reads and writes, with exactly
  the members it names; points, scalars and the round-2 acknowledgement are fixed-size arrays, kept
  as byte lists with their length in \<open>good_*\<close> predicates. Every \<^verbatim>\<open>apply_*\<close> returns its result and the
  (possibly) altered message. The locale \<open>mutator\<close> states what the mutation of a
  value promises (its report is truthful, a repeated bit flip undoes itself); every field obeys it, and
  it is interpreted on the mutation of each of the four rounds.
\<close>

section \<open>Messages on the wire\<close>

abbreviation point_size :: nat where "point_size \<equiv> 33"
abbreviation scalar_size :: nat where "scalar_size \<equiv> 32"
abbreviation ack_size :: nat where "ack_size \<equiv> 32"

record cmp_mta_message =
  mta_message :: bytes
  mta_commitment :: bytes
  mta_proof :: bytes

record cmp_mta_request =
  rq_mta :: cmp_mta_message
  rq_mta_proofs :: "(u64, bytes) omap"
  rq_A :: bytes
  rq_B :: bytes
  rq_Z :: bytes

record cmp_mta_response =
  rs_k_gamma_mta :: "(u64, cmp_mta_message) omap"
  rs_k_x_mta :: "(u64, cmp_mta_message) omap"
  rs_GAMMA :: bytes
  rs_gamma_proofs :: "(u64, bytes) omap"

record cmp_mta_responses =
  rss_ack :: bytes
  rss_response :: "cmp_mta_response list"

record cmp_mta_deltas =
  dl_delta :: bytes
  dl_DELTA :: bytes
  dl_proof :: bytes

type_synonym r1_wire = "(u64, cmp_mta_request list) omap"
type_synonym r2_wire = "(u64, cmp_mta_responses) omap"
type_synonym r3_wire = "(u64, cmp_mta_deltas list) omap"
type_synonym r4_wire = "(u64, bytes list) omap"

section \<open>Mutations\<close>

datatype wire_field =
    R1_MTA_MESSAGE | R1_MTA_COMMITMENT | R1_MTA_PROOF | R1_MTA_PROOFS_ENTRY
  | R1_POINT_A | R1_POINT_B | R1_POINT_Z
  | R2_ACK | R2_K_GAMMA_MTA_MESSAGE | R2_K_X_MTA_MESSAGE | R2_GAMMA | R2_GAMMA_PROOFS_ENTRY
  | R3_DELTA | R3_DELTA_POINT | R3_PROOF
  | R4_SI

datatype wire_op = OP_NONE | FLIP_BIT | ZERO | TRUNCATE | EXTRA_MAP_KEY

record mutation =
  m_round :: int
  m_attacker :: u64
  m_field :: wire_field
  m_op :: wire_op
  m_block :: nat
  m_byte_index :: nat
  m_bit :: byte

definition mutation_default :: mutation where
  "mutation_default = \<lparr>m_round = 0, m_attacker = 0, m_field = R1_MTA_MESSAGE, m_op = OP_NONE,
     m_block = 0, m_byte_index = 0, m_bit = 0\<rparr>"

definition enabled :: "mutation \<Rightarrow> bool" where
  "enabled m \<longleftrightarrow> m_round m \<noteq> 0 \<and> m_op m \<noteq> OP_NONE"

definition flip_in :: "bytes \<Rightarrow> nat \<Rightarrow> nat \<Rightarrow> byte \<Rightarrow> bool \<times> bytes" where
  "flip_in p len idx b =
     (if len = 0 then (False, p)
      else (True, p[idx mod len := (p ! (idx mod len)) XOR push_bit (unat (b AND 7)) 1]))"

definition zero_in :: "bytes \<Rightarrow> nat \<Rightarrow> bool \<times> bytes" where
  "zero_in p len = (if len = 0 then (False, p) else (True, replicate len 0 @ drop len p))"

definition apply_to_bytes :: "mutation \<Rightarrow> bytes \<Rightarrow> bool \<times> bytes" where
  "apply_to_bytes m v =
     (case m_op m of
        FLIP_BIT \<Rightarrow> flip_in v (length v) (m_byte_index m) (m_bit m)
      | ZERO \<Rightarrow> zero_in v (length v)
      | TRUNCATE \<Rightarrow> (if v = [] then (False, v) else (True, take (m_byte_index m mod length v) v))
      | _ \<Rightarrow> (False, v))"

definition apply_to_point :: "mutation \<Rightarrow> bytes \<Rightarrow> bool \<times> bytes" where
  "apply_to_point m p =
     (case m_op m of
        FLIP_BIT \<Rightarrow> flip_in p point_size (m_byte_index m) (m_bit m)
      | ZERO \<Rightarrow> zero_in p point_size
      | _ \<Rightarrow> (False, p))"

definition apply_to_scalar :: "mutation \<Rightarrow> bytes \<Rightarrow> bool \<times> bytes" where
  "apply_to_scalar m s =
     (case m_op m of
        FLIP_BIT \<Rightarrow> flip_in s scalar_size (m_byte_index m) (m_bit m)
      | ZERO \<Rightarrow> zero_in s scalar_size
      | _ \<Rightarrow> (False, s))"

definition apply_to_ack :: "mutation \<Rightarrow> bytes \<Rightarrow> bool \<times> bytes" where
  "apply_to_ack m a =
     (case m_op m of
        FLIP_BIT \<Rightarrow> flip_in a ack_size (m_byte_index m) (m_bit m)
      | ZERO \<Rightarrow> zero_in a ack_size
      | _ \<Rightarrow> (False, a))"

fun field_name :: "wire_field \<Rightarrow> string" where
  "field_name R1_MTA_MESSAGE = ''r1.mta.message''"
| "field_name R1_MTA_COMMITMENT = ''r1.mta.commitment''"
| "field_name R1_MTA_PROOF = ''r1.mta.proof''"
| "field_name R1_MTA_PROOFS_ENTRY = ''r1.mta_proofs[victim]''"
| "field_name R1_POINT_A = ''r1.A''"
| "field_name R1_POINT_B = ''r1.B''"
| "field_name R1_POINT_Z = ''r1.Z''"
| "field_name R2_ACK = ''r2.ack''"
| "field_name R2_K_GAMMA_MTA_MESSAGE = ''r2.k_gamma_mta[victim].message''"
| "field_name R2_K_X_MTA_MESSAGE = ''r2.k_x_mta[victim].message''"
| "field_name R2_GAMMA = ''r2.GAMMA''"
| "field_name R2_GAMMA_PROOFS_ENTRY = ''r2.gamma_proofs[victim]''"
| "field_name R3_DELTA = ''r3.delta''"
| "field_name R3_DELTA_POINT = ''r3.DELTA''"
| "field_name R3_PROOF = ''r3.proof''"
| "field_name R4_SI = ''r4.si''"

fun op_name :: "wire_op \<Rightarrow> string" where
  "op_name OP_NONE = ''none''"
| "op_name FLIP_BIT = ''flip_bit''"
| "op_name ZERO = ''zero''"
| "op_name TRUNCATE = ''truncate''"
| "op_name EXTRA_MAP_KEY = ''extra_map_key''"

definition describe :: "mutation \<Rightarrow> string" where
  "describe m =
     (if \<not> enabled m then ''none''
      else ''r'' @ to_string_int (m_round m) @ '':'' @ field_name (m_field m) @ '':'' @ op_name (m_op m)
           @ '' by='' @ to_string_u64 (m_attacker m) @ '' blk='' @ dec_of_nat (m_block m)
           @ (if m_op m = FLIP_BIT
              then '' byte='' @ dec_of_nat (m_byte_index m) @ '' bit='' @ dec_of_nat (unat (m_bit m)) else [])
           @ (if m_op m = TRUNCATE then '' keep='' @ dec_of_nat (m_byte_index m) else []))"

section \<open>Applying a mutation to the messages of a round\<close>

text \<open>A mutation of the value an iterator of a map points to; absent entries are not applied.\<close>

definition mutate_value :: "('v \<Rightarrow> bool \<times> 'v) \<Rightarrow> u64 \<Rightarrow> (u64, 'v) omap \<Rightarrow> bool \<times> (u64, 'v) omap" where
  "mutate_value f k mp =
     (case om_find mp k of
        None \<Rightarrow> (False, mp)
      | Some v \<Rightarrow> let (b, v') = f v in (b, om_set k v' mp))"

text \<open>A mutation of one block of a player's vector; an index out of range is not applied.\<close>

definition mutate_block :: "('a \<Rightarrow> bool \<times> 'a) \<Rightarrow> nat \<Rightarrow> 'a list \<Rightarrow> bool \<times> 'a list" where
  "mutate_block f i xs =
     (if length xs \<le> i then (False, xs) else let (b, x') = f (xs ! i) in (b, xs[i := x']))"

text \<open>The \<^verbatim>\<open>switch (m.field)\<close> of each round.\<close>

definition r1_switch :: "mutation \<Rightarrow> u64 \<Rightarrow> cmp_mta_request \<Rightarrow> bool \<times> cmp_mta_request" where
  "r1_switch m victim req =
     (case m_field m of
        R1_MTA_MESSAGE \<Rightarrow> let (b, v) = apply_to_bytes m (mta_message (rq_mta req))
          in (b, req\<lparr>rq_mta := (rq_mta req)\<lparr>mta_message := v\<rparr>\<rparr>)
      | R1_MTA_COMMITMENT \<Rightarrow> let (b, v) = apply_to_bytes m (mta_commitment (rq_mta req))
          in (b, req\<lparr>rq_mta := (rq_mta req)\<lparr>mta_commitment := v\<rparr>\<rparr>)
      | R1_MTA_PROOF \<Rightarrow> let (b, v) = apply_to_bytes m (mta_proof (rq_mta req))
          in (b, req\<lparr>rq_mta := (rq_mta req)\<lparr>mta_proof := v\<rparr>\<rparr>)
      | R1_MTA_PROOFS_ENTRY \<Rightarrow> let (b, e) = mutate_value (apply_to_bytes m) victim (rq_mta_proofs req)
          in (b, req\<lparr>rq_mta_proofs := e\<rparr>)
      | R1_POINT_A \<Rightarrow> let (b, p) = apply_to_point m (rq_A req) in (b, req\<lparr>rq_A := p\<rparr>)
      | R1_POINT_B \<Rightarrow> let (b, p) = apply_to_point m (rq_B req) in (b, req\<lparr>rq_B := p\<rparr>)
      | R1_POINT_Z \<Rightarrow> let (b, p) = apply_to_point m (rq_Z req) in (b, req\<lparr>rq_Z := p\<rparr>)
      | _ \<Rightarrow> (False, req))"

definition apply_r1 :: "mutation \<Rightarrow> r1_wire \<Rightarrow> u64 \<Rightarrow> bool \<times> r1_wire" where
  "apply_r1 m requests victim =
     (if m_round m \<noteq> 1 \<or> \<not> enabled m then (False, requests)
      else mutate_value (mutate_block (r1_switch m victim) (m_block m)) (m_attacker m) requests)"

definition apply_to_mta :: "mutation \<Rightarrow> cmp_mta_message \<Rightarrow> bool \<times> cmp_mta_message" where
  "apply_to_mta m e = (let (b, v) = apply_to_bytes m (mta_message e) in (b, e\<lparr>mta_message := v\<rparr>))"

definition r2_switch :: "mutation \<Rightarrow> u64 \<Rightarrow> cmp_mta_response \<Rightarrow> bool \<times> cmp_mta_response" where
  "r2_switch m victim resp =
     (case m_field m of
        R2_K_GAMMA_MTA_MESSAGE \<Rightarrow> let (b, e) = mutate_value (apply_to_mta m) victim (rs_k_gamma_mta resp)
          in (b, resp\<lparr>rs_k_gamma_mta := e\<rparr>)
      | R2_K_X_MTA_MESSAGE \<Rightarrow> let (b, e) = mutate_value (apply_to_mta m) victim (rs_k_x_mta resp)
          in (b, resp\<lparr>rs_k_x_mta := e\<rparr>)
      | R2_GAMMA \<Rightarrow> let (b, p) = apply_to_point m (rs_GAMMA resp) in (b, resp\<lparr>rs_GAMMA := p\<rparr>)
      | R2_GAMMA_PROOFS_ENTRY \<Rightarrow> let (b, e) = mutate_value (apply_to_bytes m) victim (rs_gamma_proofs resp)
          in (b, resp\<lparr>rs_gamma_proofs := e\<rparr>)
      | _ \<Rightarrow> (False, resp))"

definition r2_entry :: "mutation \<Rightarrow> u64 \<Rightarrow> cmp_mta_responses \<Rightarrow> bool \<times> cmp_mta_responses" where
  "r2_entry m victim r =
     (if m_field m = R2_ACK
      then let (b, a) = apply_to_ack m (rss_ack r) in (b, r\<lparr>rss_ack := a\<rparr>)
      else let (b, rs) = mutate_block (r2_switch m victim) (m_block m) (rss_response r)
           in (b, r\<lparr>rss_response := rs\<rparr>))"

definition apply_r2 :: "mutation \<Rightarrow> r2_wire \<Rightarrow> u64 \<Rightarrow> bool \<times> r2_wire" where
  "apply_r2 m responses victim =
     (if m_round m \<noteq> 2 \<or> \<not> enabled m then (False, responses)
      else mutate_value (r2_entry m victim) (m_attacker m) responses)"

definition r3_switch :: "mutation \<Rightarrow> cmp_mta_deltas \<Rightarrow> bool \<times> cmp_mta_deltas" where
  "r3_switch m d =
     (case m_field m of
        R3_DELTA \<Rightarrow> let (b, v) = apply_to_scalar m (dl_delta d) in (b, d\<lparr>dl_delta := v\<rparr>)
      | R3_DELTA_POINT \<Rightarrow> let (b, p) = apply_to_point m (dl_DELTA d) in (b, d\<lparr>dl_DELTA := p\<rparr>)
      | R3_PROOF \<Rightarrow> let (b, v) = apply_to_bytes m (dl_proof d) in (b, d\<lparr>dl_proof := v\<rparr>)
      | _ \<Rightarrow> (False, d))"

definition apply_r3 :: "mutation \<Rightarrow> r3_wire \<Rightarrow> u64 \<Rightarrow> bool \<times> r3_wire" where
  "apply_r3 m deltas victim =
     (if m_round m \<noteq> 3 \<or> \<not> enabled m then (False, deltas)
      else mutate_value (mutate_block (r3_switch m) (m_block m)) (m_attacker m) deltas)"

text \<open>\<^verbatim>\<open>std::set_difference\<close> on two sorted ranges.\<close>

fun set_difference :: "'a::linorder list \<Rightarrow> 'a list \<Rightarrow> 'a list" where
  "set_difference [] ys = []"
| "set_difference (x # xs) [] = x # xs"
| "set_difference (x # xs) (y # ys) =
     (if x < y then x # set_difference xs (y # ys)
      else if y < x then set_difference (x # xs) ys
      else set_difference xs ys)"

definition apply_r4 :: "mutation \<Rightarrow> r4_wire \<Rightarrow> u64 \<Rightarrow> u64 list \<Rightarrow> u64 list \<Rightarrow> bool \<times> r4_wire" where
  "apply_r4 m sis victim fixture_player_ids signer_ids =
     (if m_round m \<noteq> 4 \<or> \<not> enabled m then (False, sis)
      else if m_field m \<noteq> R4_SI then (False, sis)
      else if m_op m = EXTRA_MAP_KEY then
        let players_sorted = sort fixture_player_ids;
            signers_sorted = sort signer_ids;
            non_signers = set_difference players_sorted signers_sorted
        in case non_signers of
             [] \<Rightarrow> (False, sis)
           | extra # _ \<Rightarrow>
               if extra \<notin> set players_sorted then (False, sis)
               else if om_find sis extra \<noteq> None then (False, sis)
               else (True, om_emplace extra [replicate scalar_size 0] sis)
      else mutate_value (mutate_block (apply_to_scalar m) (m_block m)) (m_attacker m) sis)"

section \<open>What a mutation of one value promises\<close>

locale mutator =
  fixes op :: wire_op
    and f :: "'v \<Rightarrow> bool \<times> 'v"
    and good :: "'v \<Rightarrow> bool"
  assumes refused: "good v \<Longrightarrow> \<not> fst (f v) \<Longrightarrow> snd (f v) = v"
    and keeps_good: "good v \<Longrightarrow> good (snd (f v))"
    and effective: "good v \<Longrightarrow> fst (f v) \<Longrightarrow> op \<noteq> ZERO \<Longrightarrow> snd (f v) \<noteq> v"
    and involutive: "good v \<Longrightarrow> op = FLIP_BIT \<Longrightarrow> snd (f (snd (f v))) = v"

definition map_good :: "('v \<Rightarrow> bool) \<Rightarrow> ('k::linorder, 'v) omap \<Rightarrow> bool" where
  "map_good good mp \<longleftrightarrow> om_ok mp \<and> (\<forall>k v. om_find mp k = Some v \<longrightarrow> good v)"

lemma map_option_same: "(\<And>v. x = Some v \<Longrightarrow> g v = v) \<Longrightarrow> map_option g x = x"
  by (cases x) auto

lemma mutate_value_find:
  "om_ok mp \<Longrightarrow> om_find (snd (mutate_value f k mp)) k' =
     (if k' = k then map_option (\<lambda>v. snd (f v)) (om_find mp k) else om_find mp k')"
  by (auto simp: mutate_value_def om_find_set split: option.splits prod.splits)

lemma mutate_value_ok: "om_ok mp \<Longrightarrow> om_ok (snd (mutate_value f k mp))"
  by (auto simp: mutate_value_def om_ok_set split: option.splits prod.splits)

lemma mutate_value_fst:
  "fst (mutate_value f k mp) \<longleftrightarrow> (\<exists>v. om_find mp k = Some v \<and> fst (f v))"
  by (auto simp: mutate_value_def split: option.splits prod.splits)

lemma mutate_value_same:
  assumes "om_ok mp"
  shows "snd (mutate_value f k mp) = mp \<longleftrightarrow> (\<forall>v. om_find mp k = Some v \<longrightarrow> snd (f v) = v)"
proof
  assume "snd (mutate_value f k mp) = mp"
  then show "\<forall>v. om_find mp k = Some v \<longrightarrow> snd (f v) = v"
    using mutate_value_find [OF assms, of f k k] by auto
next
  assume "\<forall>v. om_find mp k = Some v \<longrightarrow> snd (f v) = v"
  then show "snd (mutate_value f k mp) = mp"
    using assms
    by (intro om_ext) (auto simp: mutate_value_ok mutate_value_find map_option_same)
qed

lemma mutate_block_simps:
  "fst (mutate_block f i xs) \<longleftrightarrow> i < length xs \<and> fst (f (xs ! i))"
  "snd (mutate_block f i xs) = (if i < length xs then xs[i := snd (f (xs ! i))] else xs)"
  by (auto simp: mutate_block_def split: prod.splits)

context mutator
begin

lemma value_mutator: "mutator op (mutate_value f k) (map_good good)"
proof
  fix mp :: "(u64, 'v) omap"
  assume good: "map_good good mp"
  then have ok: "om_ok mp" by (simp add: map_good_def)
  show "snd (mutate_value f k mp) = mp" if "\<not> fst (mutate_value f k mp)"
    using that good refused by (auto simp: mutate_value_same [OF ok] mutate_value_fst map_good_def)
  show "map_good good (snd (mutate_value f k mp))"
    using good keeps_good ok
    by (auto simp: map_good_def mutate_value_ok mutate_value_find split: if_splits)
  show "snd (mutate_value f k mp) \<noteq> mp" if "fst (mutate_value f k mp)" "op \<noteq> ZERO"
    using that good effective by (auto simp: mutate_value_same [OF ok] mutate_value_fst map_good_def)
  show "snd (mutate_value f k (snd (mutate_value f k mp))) = mp" if "op = FLIP_BIT"
    using that good ok involutive
    by (intro om_ext) (auto simp: map_good_def mutate_value_ok mutate_value_find
        option.map_comp comp_def intro!: map_option_same)
qed

lemma block_mutator: "mutator op (mutate_block f i) (list_all good)"
proof
  fix xs :: "'v list"
  assume good: "list_all good xs"
  then have at: "i < length xs \<Longrightarrow> good (xs ! i)" by (simp add: list_all_length)
  show "snd (mutate_block f i xs) = xs" if "\<not> fst (mutate_block f i xs)"
    using that refused [OF at] by (auto simp: mutate_block_simps)
  show "list_all good (snd (mutate_block f i xs))"
    using good keeps_good [OF at] by (auto simp: mutate_block_simps list_all_length nth_list_update)
  show "snd (mutate_block f i xs) \<noteq> xs" if "fst (mutate_block f i xs)" "op \<noteq> ZERO"
    using that effective [OF at] by (auto simp: mutate_block_simps) (metis nth_list_update_eq)
  show "snd (mutate_block f i (snd (mutate_block f i xs))) = xs" if "op = FLIP_BIT"
    using that involutive [OF at] by (auto simp: mutate_block_simps)
qed

end

text \<open>A mutation of a component of a structure, through its read and write functions.\<close>

lemma mutator_via:
  assumes "mutator op g good"
    and "\<And>s v. get (put s v) = v" and "\<And>s. put s (get s) = s" and "\<And>s v w. put (put s v) w = put s w"
    and "\<And>s. goods s \<Longrightarrow> good (get s)" and "\<And>s v. goods s \<Longrightarrow> good v \<Longrightarrow> goods (put s v)"
    and "\<And>s. h s = (let (b, v) = g (get s) in (b, put s v))"
  shows "mutator op h goods"
proof -
  note m = assms(1) [THEN mutator.refused] assms(1) [THEN mutator.keeps_good]
    assms(1) [THEN mutator.effective] assms(1) [THEN mutator.involutive]
  have same: "put s v = s \<longleftrightarrow> v = get s" for s v using assms(2,3) by metis
  show ?thesis
    by unfold_locales (auto simp: case_prod_beta same assms m)
qed

lemma mutator_refuse: "mutator op (\<lambda>v. (False, v)) good"
  by unfold_locales auto

lemma mutator_refuse_ext: "(\<And>v. h v = (False, v)) \<Longrightarrow> mutator op h good"
  by unfold_locales auto

subsection \<open>Bytes, points, scalars and the acknowledgement\<close>

lemma unat_and_7: "unat (b AND (7 :: byte)) < 8"
proof -
  have "(7 :: byte) = mask 3" by (simp add: mask_eq_exp_minus_1)
  then have "b AND 7 = take_bit 3 b" by (simp add: take_bit_eq_mask)
  moreover have "take_bit 3 (unat b) < 2 ^ 3" by (rule take_bit_nat_less_exp)
  ultimately show ?thesis by (simp add: unsigned_take_bit_eq)
qed

lemma flip_mask_nonzero: "push_bit (unat (b AND (7 :: byte))) (1 :: byte) \<noteq> 0"
proof -
  have "bit (push_bit (unat (b AND 7)) (1 :: byte)) (unat (b AND 7))"
    using unat_and_7 [of b] by (simp add: bit_simps)
  then show ?thesis by (metis bit_0_eq bot_apply bot_bool_def)
qed

lemma xor_mask_changes: "k \<noteq> 0 \<Longrightarrow> x XOR k \<noteq> (x :: byte)"
  by (metis xor.assoc xor.left_neutral xor_self_eq)

lemma flip_in_props:
  assumes "length p = len"
  shows "\<not> fst (flip_in p len i b) \<Longrightarrow> snd (flip_in p len i b) = p"
    and "length (snd (flip_in p len i b)) = len"
    and "fst (flip_in p len i b) \<Longrightarrow> snd (flip_in p len i b) \<noteq> p"
    and "snd (flip_in (snd (flip_in p len i b)) len i b) = p"
proof -
  have lt: "len \<noteq> 0 \<Longrightarrow> i mod len < length p" using assms by simp
  have x: "x XOR push_bit (unat (b AND 7)) 1 \<noteq> x" for x :: byte
    using flip_mask_nonzero [of b] by (rule xor_mask_changes)
  show "\<not> fst (flip_in p len i b) \<Longrightarrow> snd (flip_in p len i b) = p"
    and "length (snd (flip_in p len i b)) = len"
    using assms by (auto simp: flip_in_def)
  show "fst (flip_in p len i b) \<Longrightarrow> snd (flip_in p len i b) \<noteq> p"
    using lt x by (auto simp: flip_in_def split: if_splits) (metis nth_list_update_eq)
  show "snd (flip_in (snd (flip_in p len i b)) len i b) = p"
    using lt by (auto simp: flip_in_def xor.assoc)
qed

lemma zero_in_props:
  assumes "length p = len"
  shows "\<not> fst (zero_in p len) \<Longrightarrow> snd (zero_in p len) = p"
    and "snd (zero_in p len) = replicate len 0"
  using assms by (auto simp: zero_in_def)

lemma bytes_mutator: "mutator (m_op m) (apply_to_bytes m) (\<lambda>_. True)"
proof
  fix v :: bytes
  have sh: "take (i mod length v) v \<noteq> v" if "v \<noteq> []" for i
    using that by (metis length_greater_0_conv length_take min.strict_order_iff mod_less_divisor min.commute)
  show "\<not> fst (apply_to_bytes m v) \<Longrightarrow> snd (apply_to_bytes m v) = v"
    by (auto simp: apply_to_bytes_def flip_in_props zero_in_def split: wire_op.splits if_splits)
  show "fst (apply_to_bytes m v) \<Longrightarrow> m_op m \<noteq> ZERO \<Longrightarrow> snd (apply_to_bytes m v) \<noteq> v"
    using sh by (auto simp: apply_to_bytes_def flip_in_props split: wire_op.splits if_splits)
  show "m_op m = FLIP_BIT \<Longrightarrow> snd (apply_to_bytes m (snd (apply_to_bytes m v))) = v"
    by (simp add: apply_to_bytes_def flip_in_props)
qed simp

text \<open>Points, scalars and the acknowledgement share one shape: a fixed-size array.\<close>

lemma array_mutator:
  assumes "0 < len"
    and "\<And>p. g p = (case op of FLIP_BIT \<Rightarrow> flip_in p len i b | ZERO \<Rightarrow> zero_in p len | _ \<Rightarrow> (False, p))"
  shows "mutator op g (\<lambda>p. length p = len)"
proof
  fix p :: bytes assume p: "length p = len"
  note props = flip_in_props [OF p] zero_in_props [OF p]
  show "\<not> fst (g p) \<Longrightarrow> snd (g p) = p"
    using assms props by (auto simp: zero_in_def split: wire_op.splits)
  show "length (snd (g p)) = len"
    using assms props p by (auto split: wire_op.splits)
  show "fst (g p) \<Longrightarrow> op \<noteq> ZERO \<Longrightarrow> snd (g p) \<noteq> p"
    using assms props by (auto split: wire_op.splits)
  show "op = FLIP_BIT \<Longrightarrow> snd (g (snd (g p))) = p"
    using assms props by simp
qed

lemma point_mutator: "mutator (m_op m) (apply_to_point m) (\<lambda>p. length p = point_size)"
  by (rule array_mutator) (simp_all add: apply_to_point_def)

lemma scalar_mutator: "mutator (m_op m) (apply_to_scalar m) (\<lambda>p. length p = scalar_size)"
  by (rule array_mutator) (simp_all add: apply_to_scalar_def)

lemma ack_mutator: "mutator (m_op m) (apply_to_ack m) (\<lambda>p. length p = ack_size)"
  by (rule array_mutator) (simp_all add: apply_to_ack_def)

subsection \<open>Messages\<close>

definition good_request :: "cmp_mta_request \<Rightarrow> bool" where
  "good_request r \<longleftrightarrow> length (rq_A r) = point_size \<and> length (rq_B r) = point_size
     \<and> length (rq_Z r) = point_size \<and> map_good (\<lambda>_. True) (rq_mta_proofs r)"

definition good_response :: "cmp_mta_response \<Rightarrow> bool" where
  "good_response r \<longleftrightarrow> length (rs_GAMMA r) = point_size \<and> map_good (\<lambda>_. True) (rs_gamma_proofs r)
     \<and> map_good (\<lambda>_. True) (rs_k_gamma_mta r) \<and> map_good (\<lambda>_. True) (rs_k_x_mta r)"

definition good_responses :: "cmp_mta_responses \<Rightarrow> bool" where
  "good_responses r \<longleftrightarrow> length (rss_ack r) = ack_size \<and> list_all good_response (rss_response r)"

definition good_deltas :: "cmp_mta_deltas \<Rightarrow> bool" where
  "good_deltas d \<longleftrightarrow> length (dl_delta d) = scalar_size \<and> length (dl_DELTA d) = point_size"

definition good_si :: "bytes \<Rightarrow> bool" where
  "good_si s \<longleftrightarrow> length s = scalar_size"

lemma r1_switch_mutator: "mutator (m_op m) (r1_switch m victim) good_request"
proof (cases "m_field m")
  case R1_MTA_MESSAGE
  then show ?thesis
    by (intro mutator_via [OF bytes_mutator, where get = "\<lambda>r. mta_message (rq_mta r)" and put = "\<lambda>r v. r\<lparr>rq_mta := (rq_mta r)\<lparr>mta_message := v\<rparr>\<rparr>"])
      (simp_all add: r1_switch_def good_request_def)
next
  case R1_MTA_COMMITMENT
  then show ?thesis
    by (intro mutator_via [OF bytes_mutator, where get = "\<lambda>r. mta_commitment (rq_mta r)" and put = "\<lambda>r v. r\<lparr>rq_mta := (rq_mta r)\<lparr>mta_commitment := v\<rparr>\<rparr>"])
      (simp_all add: r1_switch_def good_request_def)
next
  case R1_MTA_PROOF
  then show ?thesis
    by (intro mutator_via [OF bytes_mutator, where get = "\<lambda>r. mta_proof (rq_mta r)" and put = "\<lambda>r v. r\<lparr>rq_mta := (rq_mta r)\<lparr>mta_proof := v\<rparr>\<rparr>"])
      (simp_all add: r1_switch_def good_request_def)
next
  case R1_MTA_PROOFS_ENTRY
  then show ?thesis
    by (intro mutator_via [OF mutator.value_mutator [OF bytes_mutator], where get = "rq_mta_proofs" and put = "\<lambda>r v. r\<lparr>rq_mta_proofs := v\<rparr>"])
      (simp_all add: r1_switch_def good_request_def)
next
  case R1_POINT_A
  then show ?thesis
    by (intro mutator_via [OF point_mutator, where get = "rq_A" and put = "\<lambda>r v. r\<lparr>rq_A := v\<rparr>"])
      (simp_all add: r1_switch_def good_request_def)
next
  case R1_POINT_B
  then show ?thesis
    by (intro mutator_via [OF point_mutator, where get = "rq_B" and put = "\<lambda>r v. r\<lparr>rq_B := v\<rparr>"])
      (simp_all add: r1_switch_def good_request_def)
next
  case R1_POINT_Z
  then show ?thesis
    by (intro mutator_via [OF point_mutator, where get = "rq_Z" and put = "\<lambda>r v. r\<lparr>rq_Z := v\<rparr>"])
      (simp_all add: r1_switch_def good_request_def)
qed (simp_all add: r1_switch_def mutator_refuse_ext)

lemma mta_mutator: "mutator (m_op m) (apply_to_mta m) (\<lambda>_. True)"
  by (intro mutator_via [OF bytes_mutator, where get = mta_message and put = "\<lambda>r v. r\<lparr>mta_message := v\<rparr>"])
    (simp_all add: apply_to_mta_def)

lemma r2_switch_mutator: "mutator (m_op m) (r2_switch m victim) good_response"
proof (cases "m_field m")
  case R2_K_GAMMA_MTA_MESSAGE
  then show ?thesis
    by (intro mutator_via [OF mutator.value_mutator [OF mta_mutator], where get = "rs_k_gamma_mta" and put = "\<lambda>r v. r\<lparr>rs_k_gamma_mta := v\<rparr>"])
      (simp_all add: r2_switch_def good_response_def)
next
  case R2_K_X_MTA_MESSAGE
  then show ?thesis
    by (intro mutator_via [OF mutator.value_mutator [OF mta_mutator], where get = "rs_k_x_mta" and put = "\<lambda>r v. r\<lparr>rs_k_x_mta := v\<rparr>"])
      (simp_all add: r2_switch_def good_response_def)
next
  case R2_GAMMA
  then show ?thesis
    by (intro mutator_via [OF point_mutator, where get = "rs_GAMMA" and put = "\<lambda>r v. r\<lparr>rs_GAMMA := v\<rparr>"])
      (simp_all add: r2_switch_def good_response_def)
next
  case R2_GAMMA_PROOFS_ENTRY
  then show ?thesis
    by (intro mutator_via [OF mutator.value_mutator [OF bytes_mutator], where get = "rs_gamma_proofs" and put = "\<lambda>r v. r\<lparr>rs_gamma_proofs := v\<rparr>"])
      (simp_all add: r2_switch_def good_response_def)
qed (simp_all add: r2_switch_def mutator_refuse_ext)

lemma r2_entry_mutator: "mutator (m_op m) (r2_entry m victim) good_responses"
proof (cases "m_field m = R2_ACK")
  case True
  then show ?thesis
    by (intro mutator_via [OF ack_mutator, where get = rss_ack and put = "\<lambda>r v. r\<lparr>rss_ack := v\<rparr>"])
      (simp_all add: r2_entry_def good_responses_def)
next
  case False
  then show ?thesis
    by (intro mutator_via [OF mutator.block_mutator [OF r2_switch_mutator], where get = rss_response
          and put = "\<lambda>r v. r\<lparr>rss_response := v\<rparr>"])
      (simp_all add: r2_entry_def good_responses_def)
qed

lemma r3_switch_mutator: "mutator (m_op m) (r3_switch m) good_deltas"
proof (cases "m_field m")
  case R3_DELTA
  then show ?thesis
    by (intro mutator_via [OF scalar_mutator, where get = "dl_delta" and put = "\<lambda>r v. r\<lparr>dl_delta := v\<rparr>"])
      (simp_all add: r3_switch_def good_deltas_def)
next
  case R3_DELTA_POINT
  then show ?thesis
    by (intro mutator_via [OF point_mutator, where get = "dl_DELTA" and put = "\<lambda>r v. r\<lparr>dl_DELTA := v\<rparr>"])
      (simp_all add: r3_switch_def good_deltas_def)
next
  case R3_PROOF
  then show ?thesis
    by (intro mutator_via [OF bytes_mutator, where get = "dl_proof" and put = "\<lambda>r v. r\<lparr>dl_proof := v\<rparr>"])
      (simp_all add: r3_switch_def good_deltas_def)
qed (simp_all add: r3_switch_def mutator_refuse_ext)

subsection \<open>Rounds\<close>

lemma mutator_guarded:
  assumes "mutator op g good"
  shows "mutator op (\<lambda>w. if c then (False, w) else g w) good"
  using assms by (cases c) (simp_all add: mutator_refuse)

interpretation r1: mutator "m_op m" "\<lambda>w. apply_r1 m w victim" "map_good (list_all good_request)"
  for m victim
  unfolding apply_r1_def
  by (intro mutator_guarded mutator.value_mutator mutator.block_mutator r1_switch_mutator)

interpretation r2: mutator "m_op m" "\<lambda>w. apply_r2 m w victim" "map_good good_responses"
  for m victim
  unfolding apply_r2_def
  by (intro mutator_guarded mutator.value_mutator r2_entry_mutator)

interpretation r3: mutator "m_op m" "\<lambda>w. apply_r3 m w victim" "map_good (list_all good_deltas)"
  for m victim
  unfolding apply_r3_def
  by (intro mutator_guarded mutator.value_mutator mutator.block_mutator r3_switch_mutator)

lemma set_difference_set:
  "sorted xs \<Longrightarrow> sorted ys \<Longrightarrow> distinct xs \<Longrightarrow> set (set_difference xs ys) = set xs - set ys"
  by (induction xs ys rule: set_difference.induct) auto

lemma set_difference_subset: "set (set_difference xs ys) \<subseteq> set xs"
  by (induction xs ys rule: set_difference.induct) auto

lemma set_difference_sorted: "sorted xs \<Longrightarrow> sorted (set_difference xs ys)"
proof (induction xs ys rule: set_difference.induct)
  case (3 x xs y ys)
  then show ?case using set_difference_subset [of xs "y # ys"] by auto
qed auto

lemma om_emplace_absent: "om_find mp k = None \<Longrightarrow> om_emplace k v mp = om_set k v mp"
  by (simp add: om_emplace_def)

text \<open>The extra entry: refused, or one zero scalar added under an unused key.\<close>

lemma apply_r4_extra:
  assumes "m_op m = EXTRA_MAP_KEY"
  shows "apply_r4 m sis victim fixture signers = (False, sis)
    \<or> (\<exists>extra \<in> set fixture. om_find sis extra = None
        \<and> apply_r4 m sis victim fixture signers = (True, om_set extra [replicate scalar_size 0] sis))"
  using assms set_difference_subset [of "sort fixture" "sort signers"]
  by (auto simp: apply_r4_def Let_def om_emplace_absent split: list.splits)

lemma apply_r4_other:
  assumes "m_op m \<noteq> EXTRA_MAP_KEY"
  shows "apply_r4 m sis victim fixture signers
    = (if m_round m \<noteq> 4 \<or> \<not> enabled m \<or> m_field m \<noteq> R4_SI then (False, sis)
       else mutate_value (mutate_block (apply_to_scalar m) (m_block m)) (m_attacker m) sis)"
  using assms by (simp add: apply_r4_def)

lemma good_si_scalar: "mutator (m_op m) (apply_to_scalar m) good_si"
  using scalar_mutator [of m] by (simp add: good_si_def [abs_def])

interpretation r4: mutator "m_op m" "\<lambda>w. apply_r4 m w victim fixture signers" "map_good (list_all good_si)"
  for m victim fixture signers
proof (cases "m_op m = EXTRA_MAP_KEY")
  case True
  show "mutator (m_op m) (\<lambda>w. apply_r4 m w victim fixture signers) (map_good (list_all good_si))"
  proof
    fix w :: r4_wire assume w: "map_good (list_all good_si) w"
    then have ok: "om_ok w" by (simp add: map_good_def)
    note x = apply_r4_extra [OF True, of w victim fixture signers]
    show "\<not> fst (apply_r4 m w victim fixture signers) \<Longrightarrow> snd (apply_r4 m w victim fixture signers) = w"
      using x by auto
    show "map_good (list_all good_si) (snd (apply_r4 m w victim fixture signers))"
      using x w by (auto simp: map_good_def om_ok_set om_find_set good_si_def split: if_splits)
    show "fst (apply_r4 m w victim fixture signers) \<Longrightarrow> m_op m \<noteq> ZERO
        \<Longrightarrow> snd (apply_r4 m w victim fixture signers) \<noteq> w"
      using x by (auto simp: om.put_change [OF ok])
  qed (use True in simp)
next
  case False
  show "mutator (m_op m) (\<lambda>w. apply_r4 m w victim fixture signers) (map_good (list_all good_si))"
    unfolding apply_r4_other [OF False]
    by (intro mutator_guarded mutator.value_mutator mutator.block_mutator good_si_scalar)
qed

section \<open>Properties\<close>

definition sample_request :: cmp_mta_request where
  "sample_request = \<lparr>rq_mta = \<lparr>mta_message = [1, 2], mta_commitment = [3], mta_proof = []\<rparr>,
     rq_mta_proofs = [(2, [9, 9])], rq_A = replicate point_size 2, rq_B = replicate point_size 3,
     rq_Z = replicate point_size 4\<rparr>"

definition sample_responses :: cmp_mta_responses where
  "sample_responses = \<lparr>rss_ack = replicate ack_size 7, rss_response =
     [\<lparr>rs_k_gamma_mta = [], rs_k_x_mta = [], rs_GAMMA = replicate point_size 5, rs_gamma_proofs = []\<rparr>]\<rparr>"

definition sample_deltas :: cmp_mta_deltas where
  "sample_deltas = \<lparr>dl_delta = replicate scalar_size 1, dl_DELTA = replicate point_size 2, dl_proof = [1]\<rparr>"

definition sample_mutation :: "int \<Rightarrow> wire_field \<Rightarrow> wire_op \<Rightarrow> mutation" where
  "sample_mutation r fld oper = mutation_default\<lparr>m_round := r, m_attacker := 1, m_field := fld,
     m_op := oper, m_byte_index := 1, m_bit := 3\<rparr>"

definition sample_w1 :: r1_wire where
  "sample_w1 = [(1, [sample_request]), (2, [sample_request])]"

definition sample_w2 :: r2_wire where
  "sample_w2 = [(1, sample_responses), (2, sample_responses)]"

definition sample_w3 :: r3_wire where
  "sample_w3 = [(1, [sample_deltas]), (2, [sample_deltas])]"

definition sample_w4 :: r4_wire where
  "sample_w4 = [(1, [replicate scalar_size 6]), (2, [replicate scalar_size 0])]"

lemmas sample_wires = sample_w1_def sample_w2_def sample_w3_def sample_w4_def

lemma sample_good:
  "map_good (list_all good_request) sample_w1"
  "map_good good_responses sample_w2"
  "map_good (list_all good_deltas) sample_w3"
  "map_good (list_all good_si) sample_w4"
  by (auto simp: map_good_def om_ok_def om_find_def good_request_def good_responses_def good_response_def
      good_deltas_def good_si_def sample_wires sample_request_def sample_responses_def sample_deltas_def split: if_splits)

text \<open>C28: the result of every \<^verbatim>\<open>apply_*\<close> tells the truth for every operation but ZERO: when it
  returns false the messages are unchanged, and when it returns true they differ from the honest
  ones, so a mutation counted as applied did alter the wire.\<close>

theorem mutation_report_truthful:
  assumes "map_good (list_all good_request) w1" and "map_good good_responses w2"
    and "map_good (list_all good_deltas) w3" and "map_good (list_all good_si) w4"
  shows "(\<not> fst (apply_r1 m w1 v) \<longrightarrow> snd (apply_r1 m w1 v) = w1)
    \<and> (\<not> fst (apply_r2 m w2 v) \<longrightarrow> snd (apply_r2 m w2 v) = w2)
    \<and> (\<not> fst (apply_r3 m w3 v) \<longrightarrow> snd (apply_r3 m w3 v) = w3)
    \<and> (\<not> fst (apply_r4 m w4 v ps ss) \<longrightarrow> snd (apply_r4 m w4 v ps ss) = w4)
    \<and> (m_op m \<noteq> ZERO \<longrightarrow>
         (fst (apply_r1 m w1 v) \<longrightarrow> snd (apply_r1 m w1 v) \<noteq> w1)
       \<and> (fst (apply_r2 m w2 v) \<longrightarrow> snd (apply_r2 m w2 v) \<noteq> w2)
       \<and> (fst (apply_r3 m w3 v) \<longrightarrow> snd (apply_r3 m w3 v) \<noteq> w3)
       \<and> (fst (apply_r4 m w4 v ps ss) \<longrightarrow> snd (apply_r4 m w4 v ps ss) \<noteq> w4))"
  using r1.refused [OF assms(1)] r2.refused [OF assms(2)] r3.refused [OF assms(3)] r4.refused [OF assms(4)]
    r1.effective [OF assms(1)] r2.effective [OF assms(2)] r3.effective [OF assms(3)] r4.effective [OF assms(4)]
  by blast

theorem mutation_report_truthful_witness:
  "fst (apply_r1 (sample_mutation 1 R1_POINT_A FLIP_BIT) sample_w1 2)
   \<and> snd (apply_r1 (sample_mutation 1 R1_POINT_A FLIP_BIT) sample_w1 2)
     \<noteq> sample_w1"
proof -
  let ?m = "sample_mutation 1 R1_POINT_A FLIP_BIT" and ?w = "sample_w1"
  have a: "fst (apply_r1 ?m ?w 2)" by code_simp
  have o: "m_op ?m \<noteq> ZERO" by (simp add: sample_mutation_def)
  from a o mutation_report_truthful [OF sample_good, of ?m 2 "[]" "[]"] show ?thesis by blast
qed



text \<open>A bit flip on the wire is its own inverse in every round: applying the same FLIP_BIT
  mutation to the mutated messages restores the honest ones.\<close>

theorem flip_bit_twice_restores_wire:
  assumes "map_good (list_all good_request) w1" and "map_good good_responses w2"
    and "map_good (list_all good_deltas) w3" and "map_good (list_all good_si) w4"
    and "m_op m = FLIP_BIT"
  shows "snd (apply_r1 m (snd (apply_r1 m w1 v)) v) = w1
    \<and> snd (apply_r2 m (snd (apply_r2 m w2 v)) v) = w2
    \<and> snd (apply_r3 m (snd (apply_r3 m w3 v)) v) = w3
    \<and> snd (apply_r4 m (snd (apply_r4 m w4 v ps ss)) v ps ss) = w4"
  using r1.involutive [OF assms(1,5)] r2.involutive [OF assms(2,5)] r3.involutive [OF assms(3,5)]
    r4.involutive [OF assms(4,5)] by blast

theorem flip_bit_twice_restores_wire_witness:
  "snd (apply_r3 (sample_mutation 3 R3_DELTA FLIP_BIT) (snd (apply_r3 (sample_mutation 3 R3_DELTA FLIP_BIT)
      sample_w3 2)) 2) = sample_w3"
  using flip_bit_twice_restores_wire [OF sample_good, of "sample_mutation 3 R3_DELTA FLIP_BIT" 2 "[]" "[]"]
  by (simp add: sample_mutation_def)

text \<open>ZERO is the exception: zeroing an attacker's share that is already the zero scalar is
  reported as applied although the messages are the honest ones, byte for byte.\<close>

theorem zero_of_zero_reported_as_applied:
  assumes "om_ok sis" and "om_find sis (m_attacker m) = Some xs" and "m_block m < length xs"
    and "xs ! m_block m = replicate scalar_size 0"
    and "m_round m = 4" and "m_field m = R4_SI" and "m_op m = ZERO"
  shows "apply_r4 m sis victim fixture signers = (True, sis)"
proof -
  let ?f = "mutate_block (apply_to_scalar m) (m_block m)"
  have s: "apply_to_scalar m (xs ! m_block m) = (True, xs ! m_block m)"
    using assms by (simp add: apply_to_scalar_def zero_in_def)
  have "fst (mutate_value ?f (m_attacker m) sis)"
    using assms s by (auto simp: mutate_value_fst mutate_block_simps)
  moreover have "snd (mutate_value ?f (m_attacker m) sis) = sis"
    using assms s by (auto simp: mutate_value_same mutate_block_simps) (metis list_update_id)
  ultimately show ?thesis
    using assms by (simp add: apply_r4_other enabled_def prod_eq_iff)
qed

theorem zero_of_zero_reported_as_applied_witness:
  "apply_r4 ((sample_mutation 4 R4_SI ZERO)\<lparr>m_attacker := 2\<rparr>)
     sample_w4 1 [1, 2] [1, 2]
   = (True, sample_w4)"
  by (rule zero_of_zero_reported_as_applied [where xs = "[replicate scalar_size 0]"])
    (simp_all add: om_ok_def om_find_def sample_mutation_def mutation_default_def sample_w4_def)



end
