(* ===== verification/Fixtures.thy ===== *)
theory Fixtures
  imports Det_Rand
begin

text \<open>
  The integrator side of the harness, \<^verbatim>\<open>src/harness/cmp_ecdsa_online/src/fixtures.cpp\<close>: the
  platform, the key store, the transaction store with its exception contract, and the canonical
  digests the state oracles compare. The library's structures carry the members the harness reads;
  the opaque Paillier and ring-Pedersen keys are type variables, and their serialisers and the
  digest functions are the fields of a \<open>crypto_lib\<close> record, an argument of the definitions. The
  locale \<open>txid_store\<close> states the isolation contract between transactions.
\<close>

section \<open>What the harness uses of the cryptographic library\<close>

record ('pp, 'ps, 'rp, 'rs) crypto_lib =
  c_sha256 :: "bytes \<Rightarrow> bytes"
  c_pp_need :: "'pp \<Rightarrow> nat"
  c_pp_serialize :: "'pp \<Rightarrow> nat \<Rightarrow> bytes option"
  c_ps_need :: "'ps \<Rightarrow> nat"
  c_ps_serialize :: "'ps \<Rightarrow> nat \<Rightarrow> bytes option"
  c_ps_public :: "'ps \<Rightarrow> 'pp"
  c_rp_need :: "'rp \<Rightarrow> nat"
  c_rp_serialize :: "'rp \<Rightarrow> nat \<Rightarrow> bytes option"
  c_rs_need :: "'rs \<Rightarrow> nat"
  c_rs_serialize :: "'rs \<Rightarrow> nat \<Rightarrow> bytes option"
  c_rs_public :: "'rs \<Rightarrow> 'rp"

section \<open>Library structures\<close>

datatype cosigner_code = INVALID_TRANSACTION | BAD_KEY | UNAUTHORIZED

record public_data =
  pd_A :: bytes
  pd_B :: bytes
  pd_Z :: bytes
  pd_GAMMA :: bytes
  pd_gamma_commitment :: bytes

record ecdsa_sig_data =
  sd_flags :: u32
  sd_message :: bytes
  sd_R :: bytes
  sd_path :: "u32 list"
  sd_k :: bytes
  sd_gamma :: bytes
  sd_a :: bytes
  sd_b :: bytes
  sd_delta :: bytes
  sd_chi :: bytes
  sd_GAMMA :: bytes
  sd_mta_request :: bytes
  sd_G_proofs :: "(u64, bytes) omap"
  sd_public_data :: "(u64, public_data) omap"

record cmp_signing_metadata =
  sm_key_id :: string
  sm_chaincode :: bytes
  sm_ack :: bytes
  sm_version :: u32
  sm_signers_ids :: "u64 list"
  sm_sig_data :: "ecdsa_sig_data list"

record ('pp, 'rp) cmp_player_info =
  pi_public_share :: bytes
  pi_paillier :: "'pp option"
  pi_ring_pedersen :: "'rp option"

record ('pp, 'rp) cmp_key_metadata =
  km_public_key :: bytes
  km_algorithm :: u32
  km_t :: byte
  km_n :: byte
  km_flags :: u64
  km_ttl :: u64
  km_seed :: bytes
  km_players_info :: "(u64, ('pp, 'rp) cmp_player_info) omap"

record ('ps, 'rs) auxiliary_keys =
  ak_paillier :: "'ps option"
  ak_ring_pedersen :: "'rs option"

section \<open>Canonical serialisation\<close>

definition append_u64 :: "bytes \<Rightarrow> u64 \<Rightarrow> bytes" where
  "append_u64 out v = out @ be_bytes 8 v"

definition append_bytes :: "bytes \<Rightarrow> bytes \<Rightarrow> bytes" where
  "append_bytes out p = out @ p"

definition append_blob :: "bytes \<Rightarrow> bytes \<Rightarrow> bytes" where
  "append_blob out p = append_bytes (append_u64 out (of_nat (length p))) p"

definition hex_char :: "nat \<Rightarrow> char" where
  "hex_char d = ''0123456789abcdef'' ! d"

definition sha256_hex :: "(bytes \<Rightarrow> bytes) \<Rightarrow> bytes \<Rightarrow> string" where
  "sha256_hex sha256 inp =
     concat (map (\<lambda>c. [hex_char (unat c div 16), hex_char (unat c mod 16)]) (sha256 inp))"

definition append_sig_data :: "bytes \<Rightarrow> ecdsa_sig_data \<Rightarrow> bytes" where
  "append_sig_data acc sd =
     (let acc = append_u64 acc (ucast (sd_flags sd));
          acc = append_bytes acc (sd_message sd);
          acc = append_bytes acc (sd_R sd);
          acc = append_u64 acc (of_nat (length (sd_path sd)));
          acc = foldl (\<lambda>a p. append_u64 a (ucast p)) acc (sd_path sd);
          acc = append_bytes acc (sd_k sd);
          acc = append_bytes acc (sd_gamma sd);
          acc = append_bytes acc (sd_a sd);
          acc = append_bytes acc (sd_b sd);
          acc = append_bytes acc (sd_delta sd);
          acc = append_bytes acc (sd_chi sd);
          acc = append_bytes acc (sd_GAMMA sd);
          acc = append_u64 acc (of_nat (length (sd_mta_request sd)));
          acc = foldl (\<lambda>a (pid, prf). append_u64 (append_u64 a pid) (of_nat (length prf)))
                  acc (sd_G_proofs sd)
      in foldl (\<lambda>a (pid, pd).
             append_u64 (append_bytes (append_bytes (append_bytes (append_bytes (append_u64 a pid)
               (pd_A pd)) (pd_B pd)) (pd_Z pd)) (pd_GAMMA pd)) (of_nat (length (pd_gamma_commitment pd))))
           acc (sd_public_data sd))"

definition append_signing_record :: "bytes \<Rightarrow> string \<Rightarrow> cmp_signing_metadata \<Rightarrow> bytes" where
  "append_signing_record acc txid md =
     (let acc = append_blob acc (string_bytes txid);
          acc = append_blob acc (string_bytes (sm_key_id md));
          acc = append_bytes acc (sm_chaincode md);
          acc = append_bytes acc (sm_ack md);
          acc = append_u64 acc (ucast (sm_version md));
          acc = foldl append_u64 acc (sm_signers_ids md);
          acc = append_u64 acc (of_nat (length (sm_sig_data md)))
      in foldl append_sig_data acc (sm_sig_data md))"

definition append_public :: "('k \<Rightarrow> nat) \<Rightarrow> ('k \<Rightarrow> nat \<Rightarrow> bytes option) \<Rightarrow> bytes \<Rightarrow> 'k option \<Rightarrow> bytes" where
  "append_public need serialize out pub =
     (case pub of
        None \<Rightarrow> append_u64 out 0
      | Some k \<Rightarrow> (case serialize k (need k) of
            Some buf \<Rightarrow> append_blob out buf
          | None \<Rightarrow> append_u64 out 0))"

definition append_paillier_pub ::
  "('pp, 'ps, 'rp, 'rs) crypto_lib \<Rightarrow> bytes \<Rightarrow> 'pp option \<Rightarrow> bytes" where
  "append_paillier_pub lib = append_public (c_pp_need lib) (c_pp_serialize lib)"

definition append_rp_pub ::
  "('pp, 'ps, 'rp, 'rs) crypto_lib \<Rightarrow> bytes \<Rightarrow> 'rp option \<Rightarrow> bytes" where
  "append_rp_pub lib = append_public (c_rp_need lib) (c_rp_serialize lib)"

section \<open>Platform\<close>

definition TENANT_ID :: string where
  "TENANT_ID = ''opus harness tenant''"

definition FIXED_NOW_MSEC :: u64 where
  "FIXED_NOW_MSEC = 1700000000000"

record det_platform =
  pf_id :: u64
  pf_throw_on_start :: bool

definition get_current_tenantid :: "det_platform \<Rightarrow> string" where
  "get_current_tenantid pf = TENANT_ID"

definition get_id_from_keyid :: "det_platform \<Rightarrow> string \<Rightarrow> u64" where
  "get_id_from_keyid pf key_id = pf_id pf"

definition set_throw_on_start_signing :: "bool \<Rightarrow> det_platform \<Rightarrow> det_platform" where
  "set_throw_on_start_signing v pf = pf\<lparr>pf_throw_on_start := v\<rparr>"

definition on_start_signing :: "det_platform \<Rightarrow> cosigner_code + unit" where
  "on_start_signing pf = (if pf_throw_on_start pf then Inl UNAUTHORIZED else Inr ())"

definition gen_random :: "openssl \<Rightarrow> nat \<Rightarrow> rng_globals \<Rightarrow> bytes \<times> rng_globals" where
  "gen_random ossl len g =
     (if len = 0 then ([], g)
      else let (r, out, g') = rand_bytes_g ossl (int len) g in (out, g'))"

text \<open>The library's flag values \<^verbatim>\<open>POSITIVE_R\<close> and \<^verbatim>\<open>NONE\<close> are arguments.\<close>

definition fill_signing_info_from_metadata :: "u32 \<Rightarrow> u32 \<Rightarrow> string \<Rightarrow> u32 list \<Rightarrow> u32 list" where
  "fill_signing_info_from_metadata positive_r none metadata flags =
     map (\<lambda>_. if metadata = ''positive_r'' then positive_r else none) flags"

definition encrypt_for_player :: "u64 \<Rightarrow> bytes \<Rightarrow> bytes" where
  "encrypt_for_player i d = d"

definition decrypt_message :: "bytes \<Rightarrow> bytes" where
  "decrypt_message d = d"

section \<open>Key store\<close>

record ('pp, 'ps, 'rp, 'rs) key_info =
  ki_algorithm :: u32
  ki_private_key :: bytes
  ki_metadata :: "('pp, 'rp) cmp_key_metadata"
  ki_aux_keys :: "('ps, 'rs) auxiliary_keys"
  ki_has_metadata :: bool

type_synonym ('pp, 'ps, 'rp, 'rs) det_key_persistency = "(string, ('pp, 'ps, 'rp, 'rs) key_info) omap"

text \<open>
  A default-constructed entry; its metadata is a placeholder that no reader looks at while
  \<open>ki_has_metadata\<close> is false (\<open>default_metadata_unread\<close> below).
\<close>

definition key_metadata_default :: "('pp, 'rp) cmp_key_metadata" where
  "key_metadata_default = \<lparr>km_public_key = [], km_algorithm = 0, km_t = 0, km_n = 0, km_flags = 0,
     km_ttl = 0, km_seed = [], km_players_info = []\<rparr>"

definition key_info_default :: "('pp, 'ps, 'rp, 'rs) key_info" where
  "key_info_default = \<lparr>ki_algorithm = 0, ki_private_key = replicate 32 0,
     ki_metadata = key_metadata_default,
     ki_aux_keys = \<lparr>ak_paillier = None, ak_ring_pedersen = None\<rparr>, ki_has_metadata = False\<rparr>"

text \<open>\<^verbatim>\<open>_keys[key_id]\<close>: a missing entry is default-constructed first.\<close>

definition key_slot :: "('pp, 'ps, 'rp, 'rs) det_key_persistency \<Rightarrow> string \<Rightarrow> ('pp, 'ps, 'rp, 'rs) key_info" where
  "key_slot ks key_id = (case om_find ks key_id of None \<Rightarrow> key_info_default | Some i \<Rightarrow> i)"

definition preload_key ::
  "string \<Rightarrow> u32 \<Rightarrow> bytes \<Rightarrow> ('pp, 'rp) cmp_key_metadata
   \<Rightarrow> ('pp, 'ps, 'rp, 'rs) det_key_persistency \<Rightarrow> ('pp, 'ps, 'rp, 'rs) det_key_persistency" where
  "preload_key key_id algorithm private_key metadata ks =
     om_set key_id ((key_slot ks key_id)\<lparr>ki_private_key := private_key, ki_algorithm := algorithm,
       ki_metadata := metadata, ki_has_metadata := True\<rparr>) ks"

definition preload_aux ::
  "string \<Rightarrow> ('ps, 'rs) auxiliary_keys
   \<Rightarrow> ('pp, 'ps, 'rp, 'rs) det_key_persistency \<Rightarrow> ('pp, 'ps, 'rp, 'rs) det_key_persistency" where
  "preload_aux key_id aux ks = om_set key_id ((key_slot ks key_id)\<lparr>ki_aux_keys := aux\<rparr>) ks"

definition key_exist :: "('pp, 'ps, 'rp, 'rs) det_key_persistency \<Rightarrow> string \<Rightarrow> bool" where
  "key_exist ks key_id \<longleftrightarrow> om_find ks key_id \<noteq> None"

definition load_key :: "('pp, 'ps, 'rp, 'rs) det_key_persistency \<Rightarrow> string \<Rightarrow> cosigner_code + (u32 \<times> bytes)" where
  "load_key ks key_id =
     (case om_find ks key_id of
        None \<Rightarrow> Inl BAD_KEY
      | Some i \<Rightarrow> Inr (ki_algorithm i, ki_private_key i))"

definition get_tenantid_from_keyid :: "('pp, 'ps, 'rp, 'rs) det_key_persistency \<Rightarrow> string \<Rightarrow> string" where
  "get_tenantid_from_keyid ks key_id = TENANT_ID"

definition load_key_metadata ::
  "('pp, 'ps, 'rp, 'rs) det_key_persistency \<Rightarrow> string \<Rightarrow> cosigner_code + ('pp, 'rp) cmp_key_metadata" where
  "load_key_metadata ks key_id =
     (case om_find ks key_id of
        None \<Rightarrow> Inl BAD_KEY
      | Some i \<Rightarrow> if \<not> ki_has_metadata i then Inl BAD_KEY else Inr (ki_metadata i))"

definition load_auxiliary_keys ::
  "('pp, 'ps, 'rp, 'rs) det_key_persistency \<Rightarrow> string \<Rightarrow> cosigner_code + ('ps, 'rs) auxiliary_keys" where
  "load_auxiliary_keys ks key_id =
     (case om_find ks key_id of None \<Rightarrow> Inl BAD_KEY | Some i \<Rightarrow> Inr (ki_aux_keys i))"

definition append_key_metadata ::
  "('pp, 'ps, 'rp, 'rs) crypto_lib \<Rightarrow> bytes \<Rightarrow> ('pp, 'rp) cmp_key_metadata \<Rightarrow> bytes" where
  "append_key_metadata lib acc md =
     (let acc = append_bytes acc (km_public_key md);
          acc = append_u64 acc (ucast (km_algorithm md));
          acc = append_u64 acc (ucast (km_t md));
          acc = append_u64 acc (ucast (km_n md));
          acc = append_u64 acc (km_flags md);
          acc = append_u64 acc (km_ttl md);
          acc = append_bytes acc (km_seed md)
      in foldl (\<lambda>a (pid, info).
             append_rp_pub lib (append_paillier_pub lib
               (append_bytes (append_u64 a pid) (pi_public_share info))
               (pi_paillier info)) (pi_ring_pedersen info))
           acc (km_players_info md))"

definition append_key_info ::
  "('pp, 'ps, 'rp, 'rs) crypto_lib \<Rightarrow> bytes \<Rightarrow> string \<times> ('pp, 'ps, 'rp, 'rs) key_info \<Rightarrow> bytes" where
  "append_key_info lib acc e =
     (let (key_id, info) = e;
          acc = append_blob acc (string_bytes key_id);
          acc = append_u64 acc (ucast (ki_algorithm info));
          acc = append_bytes acc (ki_private_key info);
          acc = append_u64 acc (if ki_has_metadata info then 1 else 0);
          acc = (if ki_has_metadata info then append_key_metadata lib acc (ki_metadata info) else acc);
          acc = append_u64 acc (if ak_paillier (ki_aux_keys info) \<noteq> None then 1 else 0);
          acc = append_u64 acc (if ak_ring_pedersen (ki_aux_keys info) \<noteq> None then 1 else 0);
          acc = (case ak_paillier (ki_aux_keys info) of None \<Rightarrow> acc
                 | Some k \<Rightarrow> append_paillier_pub lib acc (Some (c_ps_public lib k)))
      in (case ak_ring_pedersen (ki_aux_keys info) of None \<Rightarrow> acc
          | Some k \<Rightarrow> append_rp_pub lib acc (Some (c_rs_public lib k))))"

definition key_store_digest ::
  "('pp, 'ps, 'rp, 'rs) crypto_lib \<Rightarrow> ('pp, 'ps, 'rp, 'rs) det_key_persistency \<Rightarrow> string" where
  "key_store_digest lib ks = sha256_hex (c_sha256 lib) (foldl (append_key_info lib) [] ks)"

definition aggregate_key_store_digest ::
  "('pp, 'ps, 'rp, 'rs) crypto_lib \<Rightarrow> (u64, ('pp, 'ps, 'rp, 'rs) det_key_persistency) omap \<Rightarrow> string" where
  "aggregate_key_store_digest lib stores =
     sha256_hex (c_sha256 lib)
       (foldl (\<lambda>acc (pid, ks). append_blob (append_u64 acc pid) (string_bytes (key_store_digest lib ks)))
          [] stores)"

section \<open>Transaction store\<close>

record det_signing_persistency =
  ss_metadata :: "(string, cmp_signing_metadata) omap"
  ss_store_calls :: nat
  ss_update_calls :: nat
  ss_delete_calls :: nat

definition signing_store_init :: det_signing_persistency where
  "signing_store_init = \<lparr>ss_metadata = [], ss_store_calls = 0, ss_update_calls = 0, ss_delete_calls = 0\<rparr>"

definition store_cmp_signing_data ::
  "string \<Rightarrow> cmp_signing_metadata \<Rightarrow> det_signing_persistency \<Rightarrow> (cosigner_code + unit) \<times> det_signing_persistency" where
  "store_cmp_signing_data txid data st0 =
     (let st = st0\<lparr>ss_store_calls := ss_store_calls st0 + 1\<rparr> in
      if om_find (ss_metadata st) txid \<noteq> None then (Inl INVALID_TRANSACTION, st)
      else (Inr (), st\<lparr>ss_metadata := om_set txid data (ss_metadata st)\<rparr>))"

definition load_cmp_signing_data ::
  "string \<Rightarrow> det_signing_persistency \<Rightarrow> cosigner_code + cmp_signing_metadata" where
  "load_cmp_signing_data txid st =
     (case om_find (ss_metadata st) txid of
        None \<Rightarrow> Inl INVALID_TRANSACTION
      | Some d \<Rightarrow> Inr d)"

definition update_cmp_signing_data ::
  "string \<Rightarrow> cmp_signing_metadata \<Rightarrow> det_signing_persistency \<Rightarrow> (cosigner_code + unit) \<times> det_signing_persistency" where
  "update_cmp_signing_data txid data st0 =
     (let st = st0\<lparr>ss_update_calls := ss_update_calls st0 + 1\<rparr> in
      if om_find (ss_metadata st) txid = None then (Inl INVALID_TRANSACTION, st)
      else (Inr (), st\<lparr>ss_metadata := om_set txid data (ss_metadata st)\<rparr>))"

definition delete_temporary_signing_data ::
  "string \<Rightarrow> det_signing_persistency \<Rightarrow> det_signing_persistency" where
  "delete_temporary_signing_data txid st0 =
     (let st = st0\<lparr>ss_delete_calls := ss_delete_calls st0 + 1\<rparr>
      in st\<lparr>ss_metadata := om_erase txid (ss_metadata st)\<rparr>)"

definition has :: "det_signing_persistency \<Rightarrow> string \<Rightarrow> bool" where
  "has st txid \<longleftrightarrow> om_find (ss_metadata st) txid \<noteq> None"

definition try_get :: "det_signing_persistency \<Rightarrow> string \<Rightarrow> cmp_signing_metadata \<Rightarrow> bool \<times> cmp_signing_metadata" where
  "try_get st txid out =
     (case om_find (ss_metadata st) txid of None \<Rightarrow> (False, out) | Some d \<Rightarrow> (True, d))"

definition signing_store_digest :: "(bytes \<Rightarrow> bytes) \<Rightarrow> det_signing_persistency \<Rightarrow> string" where
  "signing_store_digest sha256 st =
     sha256_hex sha256 (foldl (\<lambda>acc (txid, md). append_signing_record acc txid md) [] (ss_metadata st))"

definition digest_for_txid :: "(bytes \<Rightarrow> bytes) \<Rightarrow> det_signing_persistency \<Rightarrow> string \<Rightarrow> string option" where
  "digest_for_txid sha256 st txid =
     (case om_find (ss_metadata st) txid of
        None \<Rightarrow> None
      | Some md \<Rightarrow> Some (sha256_hex sha256 (append_signing_record [] txid md)))"

definition canonical_signing_record_digest :: "(bytes \<Rightarrow> bytes) \<Rightarrow> string \<Rightarrow> cmp_signing_metadata \<Rightarrow> string" where
  "canonical_signing_record_digest sha256 txid data = sha256_hex sha256 (append_signing_record [] txid data)"

section \<open>The transaction store keeps transactions apart\<close>

text \<open>A store whose operations name a transaction and touch no other one.\<close>

locale txid_store =
  fixes rec :: "'s \<Rightarrow> 'k \<Rightarrow> 'v option"
    and step :: "'op \<Rightarrow> 's \<Rightarrow> 's"
    and key :: "'op \<Rightarrow> 'k"
    and ok :: "'s \<Rightarrow> bool"
  assumes step_frame: "ok s \<Longrightarrow> k \<noteq> key p \<Longrightarrow> rec (step p s) k = rec s k"
    and step_ok: "ok s \<Longrightarrow> ok (step p s)"
begin

lemma steps_ok: "ok s \<Longrightarrow> ok (fold step ps s)"
  by (induction ps arbitrary: s) (auto simp: step_ok)

lemma steps_frame: "ok s \<Longrightarrow> \<forall>p\<in>set ps. key p \<noteq> k \<Longrightarrow> rec (fold step ps s) k = rec s k"
  by (induction ps arbitrary: s) (auto simp: step_frame step_ok)

lemma steps_frame_filter:
  "ok s \<Longrightarrow> \<forall>p\<in>set ps. key p = k' \<Longrightarrow> k \<noteq> k' \<Longrightarrow> rec (fold step ps s) k = rec s k"
  by (rule steps_frame) auto

end

datatype signing_op =
    StoreOp string cmp_signing_metadata | UpdateOp string cmp_signing_metadata
  | LoadOp string | DeleteOp string

primrec op_txid :: "signing_op \<Rightarrow> string" where
  "op_txid (StoreOp t d) = t"
| "op_txid (UpdateOp t d) = t"
| "op_txid (LoadOp t) = t"
| "op_txid (DeleteOp t) = t"

primrec run_signing_op :: "signing_op \<Rightarrow> det_signing_persistency \<Rightarrow> det_signing_persistency" where
  "run_signing_op (StoreOp t d) st = snd (store_cmp_signing_data t d st)"
| "run_signing_op (UpdateOp t d) st = snd (update_cmp_signing_data t d st)"
| "run_signing_op (LoadOp t) st = st"
| "run_signing_op (DeleteOp t) st = delete_temporary_signing_data t st"

definition store_ok :: "det_signing_persistency \<Rightarrow> bool" where
  "store_ok st \<longleftrightarrow> om_ok (ss_metadata st)"

definition store_map :: "det_signing_persistency \<Rightarrow> string \<Rightarrow> cmp_signing_metadata option" where
  "store_map st = om_find (ss_metadata st)"

lemmas signing_op_defs = store_cmp_signing_data_def update_cmp_signing_data_def
  delete_temporary_signing_data_def store_ok_def store_map_def Let_def

interpretation signing: txid_store store_map run_signing_op op_txid store_ok
proof
  fix s p k assume "store_ok s" "k \<noteq> op_txid p"
  then show "store_map (run_signing_op p s) k = store_map s k"
    by (cases p) (auto simp: signing_op_defs om_find_set om_find_erase)
next
  fix s p assume "store_ok s"
  then show "store_ok (run_signing_op p s)"
    by (cases p) (auto simp: signing_op_defs om_ok_set om_ok_erase)
qed

lemma signing_store_init_ok: "store_ok signing_store_init"
  by (simp add: store_ok_def signing_store_init_def)

lemma store_reads_by_map:
  "has st t \<longleftrightarrow> store_map st t \<noteq> None"
  "load_cmp_signing_data t st = (case store_map st t of None \<Rightarrow> Inl INVALID_TRANSACTION | Some d \<Rightarrow> Inr d)"
  "try_get st t out = (case store_map st t of None \<Rightarrow> (False, out) | Some d \<Rightarrow> (True, d))"
  "digest_for_txid sha st t = map_option (canonical_signing_record_digest sha t) (store_map st t)"
  by (simp_all add: has_def load_cmp_signing_data_def try_get_def digest_for_txid_def store_map_def
      canonical_signing_record_digest_def option.case_eq_if map_option_case)

section \<open>Properties of the transaction store\<close>

text \<open>C20: the transaction store implements the integrator contract on an abstract map from
  transaction ids to records: storing a fresh id succeeds and binds it, storing a present id and
  updating or loading an absent one throw INVALID_TRANSACTION and change no record, updating a
  present id rebinds it, deleting never fails and unbinds the id, and the readers answer from the
  map.\<close>

theorem signing_store_refines_map:
  assumes "store_ok st"
  shows "(fst (store_cmp_signing_data t d st) = (if store_map st t = None then Inr () else Inl INVALID_TRANSACTION))
    \<and> store_map (snd (store_cmp_signing_data t d st))
        = (if store_map st t = None then (store_map st)(t \<mapsto> d) else store_map st)
    \<and> (fst (update_cmp_signing_data t d st) = (if store_map st t = None then Inl INVALID_TRANSACTION else Inr ()))
    \<and> store_map (snd (update_cmp_signing_data t d st))
        = (if store_map st t = None then store_map st else (store_map st)(t \<mapsto> d))
    \<and> store_map (delete_temporary_signing_data t st) = (store_map st)(t := None)
    \<and> load_cmp_signing_data t st = (case store_map st t of None \<Rightarrow> Inl INVALID_TRANSACTION | Some r \<Rightarrow> Inr r)
    \<and> (has st t \<longleftrightarrow> t \<in> dom (store_map st))
    \<and> store_ok (snd (store_cmp_signing_data t d st)) \<and> store_ok (snd (update_cmp_signing_data t d st))
    \<and> store_ok (delete_temporary_signing_data t st)"
proof -
  have ok: "om_ok (ss_metadata st)" using assms by (simp add: store_ok_def)
  show ?thesis
    by (auto simp: signing_op_defs store_reads_by_map om_find_set [OF ok] om_find_erase
        om_ok_set [OF ok] om_ok_erase [OF ok] ok fun_eq_iff)
qed

definition sample_metadata :: cmp_signing_metadata where
  "sample_metadata = \<lparr>sm_key_id = ''k'', sm_chaincode = replicate 32 0, sm_ack = replicate 32 0,
     sm_version = 1, sm_signers_ids = [1, 2], sm_sig_data = []\<rparr>"

theorem signing_store_refines_map_witness:
  "store_map (snd (store_cmp_signing_data ''tx'' sample_metadata signing_store_init)) ''tx'' = Some sample_metadata
   \<and> fst (update_cmp_signing_data ''tx'' sample_metadata signing_store_init) = Inl INVALID_TRANSACTION"
  using signing_store_refines_map [OF signing_store_init_ok, of "''tx''" sample_metadata]
  by (simp add: store_map_def signing_store_init_def)

text \<open>Transactions are isolated. Any sequence of store, update, load and delete calls that
  names only other transactions leaves a transaction's record, its presence, its load result and
  its canonical digest exactly as they were.\<close>

theorem signing_store_isolation:
  assumes "store_ok st" and "\<forall>p\<in>set ops. op_txid p \<noteq> t"
  shows "store_map (fold run_signing_op ops st) t = store_map st t
    \<and> has (fold run_signing_op ops st) t = has st t
    \<and> load_cmp_signing_data t (fold run_signing_op ops st) = load_cmp_signing_data t st
    \<and> digest_for_txid sha256 (fold run_signing_op ops st) t = digest_for_txid sha256 st t"
  using signing.steps_frame [OF assms] by (simp add: store_reads_by_map)

theorem signing_store_isolation_witness:
  "has (fold run_signing_op [StoreOp ''b'' sample_metadata, DeleteOp ''c'', UpdateOp ''b'' sample_metadata]
     (snd (store_cmp_signing_data ''a'' sample_metadata signing_store_init))) ''a''"
proof -
  let ?st = "snd (store_cmp_signing_data ''a'' sample_metadata signing_store_init)"
  have ok: "store_ok ?st" and h: "has ?st ''a''"
    by (simp_all add: signing_op_defs signing_store_init_def has_def om_ok_def om_find_def)
  have k: "\<forall>p\<in>set [StoreOp ''b'' sample_metadata, DeleteOp ''c'', UpdateOp ''b'' sample_metadata].
      op_txid p \<noteq> ''a''" by simp
  show ?thesis using signing_store_isolation [OF ok k, of id] h by blast
qed

section \<open>What the canonical record digest sees\<close>

text \<open>A record with the contents of its variable-length proofs blanked, their sizes kept.\<close>

definition blank :: "bytes \<Rightarrow> bytes" where
  "blank b = replicate (length b) 0"

definition redact_sig_data :: "ecdsa_sig_data \<Rightarrow> ecdsa_sig_data" where
  "redact_sig_data sd = sd\<lparr>sd_mta_request := blank (sd_mta_request sd),
     sd_G_proofs := map (\<lambda>(pid, prf). (pid, blank prf)) (sd_G_proofs sd),
     sd_public_data := map (\<lambda>(pid, pd). (pid, pd\<lparr>pd_gamma_commitment := blank (pd_gamma_commitment pd)\<rparr>))
       (sd_public_data sd)\<rparr>"

definition redact_record :: "cmp_signing_metadata \<Rightarrow> cmp_signing_metadata" where
  "redact_record md = md\<lparr>sm_sig_data := map redact_sig_data (sm_sig_data md)\<rparr>"

lemma foldl_map_cong: "(\<And>a x. h a (g x) = h' a x) \<Longrightarrow> foldl h a (map g xs) = foldl h' a xs"
  by (induction xs arbitrary: a) auto

lemma foldl_appends: "foldl (\<lambda>a x. a @ f x) acc xs = acc @ concat (map f xs)"
  by (induction xs arbitrary: acc) auto

text \<open>Every loop of the serialiser only appends.\<close>

definition proof_bytes :: "u64 \<times> bytes \<Rightarrow> bytes" where
  "proof_bytes = (\<lambda>(pid, prf). be_bytes 8 pid @ be_bytes 8 (of_nat (length prf) :: u64))"

definition public_data_bytes :: "u64 \<times> public_data \<Rightarrow> bytes" where
  "public_data_bytes = (\<lambda>(pid, pd). be_bytes 8 pid @ pd_A pd @ pd_B pd @ pd_Z pd @ pd_GAMMA pd
     @ be_bytes 8 (of_nat (length (pd_gamma_commitment pd)) :: u64))"

definition sig_data_bytes :: "ecdsa_sig_data \<Rightarrow> bytes" where
  "sig_data_bytes sd = be_bytes 8 (ucast (sd_flags sd) :: u64) @ sd_message sd @ sd_R sd
     @ be_bytes 8 (of_nat (length (sd_path sd)) :: u64)
     @ concat (map (\<lambda>p. be_bytes 8 (ucast p :: u64)) (sd_path sd))
     @ sd_k sd @ sd_gamma sd @ sd_a sd @ sd_b sd @ sd_delta sd @ sd_chi sd @ sd_GAMMA sd
     @ be_bytes 8 (of_nat (length (sd_mta_request sd)) :: u64)
     @ concat (map proof_bytes (sd_G_proofs sd)) @ concat (map public_data_bytes (sd_public_data sd))"

lemma append_sig_data_eq: "append_sig_data acc sd = acc @ sig_data_bytes sd"
proof -
  have 1: "(\<lambda>a (pid, prf). append_u64 (append_u64 a pid) (of_nat (length prf)))
      = (\<lambda>a x. a @ proof_bytes x)"
    by (auto simp: fun_eq_iff append_u64_def proof_bytes_def)
  have 2: "(\<lambda>a (pid, pd). append_u64 (append_bytes (append_bytes (append_bytes (append_bytes (append_u64 a pid)
               (pd_A pd)) (pd_B pd)) (pd_Z pd)) (pd_GAMMA pd)) (of_nat (length (pd_gamma_commitment pd))))
      = (\<lambda>a x. a @ public_data_bytes x)"
    by (auto simp: fun_eq_iff append_u64_def append_bytes_def public_data_bytes_def)
  have 3: "(\<lambda>a (p::u32). append_u64 a (ucast p)) = (\<lambda>a p. a @ be_bytes 8 (ucast p :: u64))"
    by (auto simp: fun_eq_iff append_u64_def)
  show ?thesis
    unfolding append_sig_data_def Let_def 1 2 3 foldl_appends
    by (simp add: append_u64_def append_bytes_def sig_data_bytes_def)
qed

lemma sig_data_bytes_redact: "sig_data_bytes (redact_sig_data sd) = sig_data_bytes sd"
  by (auto simp: sig_data_bytes_def redact_sig_data_def blank_def proof_bytes_def public_data_bytes_def
      comp_def split_def)

lemma append_sig_data_redact: "append_sig_data acc (redact_sig_data sd) = append_sig_data acc sd"
  by (simp add: append_sig_data_eq sig_data_bytes_redact)

lemma append_signing_record_redact:
  "append_signing_record acc txid (redact_record md) = append_signing_record acc txid md"
  unfolding append_signing_record_def redact_record_def Let_def
  by (auto simp: append_sig_data_redact intro!: foldl_map_cong)

lemma foldl_append_u64: "foldl append_u64 acc ids = acc @ concat (map (be_bytes 8) ids)"
  by (induction ids arbitrary: acc) (simp_all add: append_u64_def)

lemma foldl_append_sig_data: "foldl append_sig_data acc sds = acc @ concat (map sig_data_bytes sds)"
  by (induction sds arbitrary: acc) (simp_all add: append_sig_data_eq)

lemma append_signing_record_header:
  "append_signing_record [] txid md =
     be_bytes 8 (of_nat (length txid) :: u64) @ string_bytes txid
     @ be_bytes 8 (of_nat (length (sm_key_id md)) :: u64) @ string_bytes (sm_key_id md)
     @ sm_chaincode md @ sm_ack md @ be_bytes 8 (ucast (sm_version md) :: u64)
     @ concat (map (be_bytes 8) (sm_signers_ids md))
     @ be_bytes 8 (of_nat (length (sm_sig_data md)) :: u64) @ concat (map sig_data_bytes (sm_sig_data md))"
  unfolding append_signing_record_def Let_def
  by (simp add: foldl_append_sig_data append_blob_def append_bytes_def append_u64_def foldl_append_u64)

lemma ucast_u32_u64_inject: "(ucast (v :: u32) :: u64) = ucast w \<longleftrightarrow> v = w"
proof
  assume eq: "(ucast v :: u64) = ucast w"
  have "bit v n = bit w n" if "n < LENGTH(32)" for n
    using arg_cong [OF eq, of "\<lambda>x. bit x n"] that by (simp add: bit_simps)
  then show "v = w" by (intro bit_word_eqI) simp
qed simp

lemma length_prefixed_inject:
  assumes "be_bytes 8 (of_nat (length a) :: u64) @ a @ x = be_bytes 8 (of_nat (length b) :: u64) @ b @ y"
    and "length a < 2 ^ 64" "length b < 2 ^ 64"
  shows "a = b \<and> x = y"
proof -
  have "be_bytes 8 (of_nat (length a) :: u64) = be_bytes 8 (of_nat (length b) :: u64)" "a @ x = b @ y"
    using assms(1) by auto
  then have "(of_nat (length a) :: u64) = of_nat (length b)" by (simp add: be_bytes_inject)
  then have "unat (of_nat (length a) :: u64) = unat (of_nat (length b) :: u64)" by simp
  then have "length a = length b" using assms(2,3) by (simp add: unat_of_nat)
  with \<open>a @ x = b @ y\<close> show ?thesis by simp
qed

text \<open>The preimage of the canonical record digest determines the transaction id, the key id, the
  chain code, the acknowledgement and the protocol version of the record, so two records that
  differ in any of them are hashed from different bytes.\<close>

theorem record_digest_preimage_determines_header:
  assumes "append_signing_record [] txid md = append_signing_record [] txid' md'"
    and "length txid < 2 ^ 64" "length txid' < 2 ^ 64"
    and "length (sm_key_id md) < 2 ^ 64" "length (sm_key_id md') < 2 ^ 64"
    and "length (sm_chaincode md) = 32" "length (sm_chaincode md') = 32"
    and "length (sm_ack md) = 32" "length (sm_ack md') = 32"
  shows "txid = txid' \<and> sm_key_id md = sm_key_id md' \<and> sm_chaincode md = sm_chaincode md'
    \<and> sm_ack md = sm_ack md' \<and> sm_version md = sm_version md'"
proof -
  note eq = assms(1) [unfolded append_signing_record_header]
  from length_prefixed_inject [OF eq [folded length_string_bytes]] assms
  have 1: "txid = txid'" and r1: "be_bytes 8 (of_nat (length (sm_key_id md)) :: u64) @ string_bytes (sm_key_id md)
      @ sm_chaincode md @ sm_ack md @ be_bytes 8 (ucast (sm_version md) :: u64)
      @ concat (map (be_bytes 8) (sm_signers_ids md))
      @ be_bytes 8 (of_nat (length (sm_sig_data md)) :: u64) @ concat (map sig_data_bytes (sm_sig_data md))
    = be_bytes 8 (of_nat (length (sm_key_id md')) :: u64) @ string_bytes (sm_key_id md')
      @ sm_chaincode md' @ sm_ack md' @ be_bytes 8 (ucast (sm_version md') :: u64)
      @ concat (map (be_bytes 8) (sm_signers_ids md'))
      @ be_bytes 8 (of_nat (length (sm_sig_data md')) :: u64) @ concat (map sig_data_bytes (sm_sig_data md'))"
    by auto
  from length_prefixed_inject [OF r1 [folded length_string_bytes]] assms
  have 2: "sm_key_id md = sm_key_id md'" "sm_chaincode md = sm_chaincode md'" "sm_ack md = sm_ack md'"
    "be_bytes 8 (ucast (sm_version md) :: u64) = be_bytes 8 (ucast (sm_version md') :: u64)"
    by auto
  then have "(ucast (sm_version md) :: u64) = ucast (sm_version md')" by (simp add: be_bytes_inject)
  then have "sm_version md = sm_version md'" by (simp add: ucast_u32_u64_inject)
  with 1 2 show ?thesis by simp
qed

definition sample_sig_data :: "bytes \<Rightarrow> ecdsa_sig_data" where
  "sample_sig_data mta = \<lparr>sd_flags = 0, sd_message = replicate 32 1, sd_R = replicate 33 0, sd_path = [44, 0],
     sd_k = replicate 32 2, sd_gamma = replicate 32 3, sd_a = replicate 32 0, sd_b = replicate 32 0,
     sd_delta = replicate 32 0, sd_chi = replicate 32 0, sd_GAMMA = replicate 33 0, sd_mta_request = mta,
     sd_G_proofs = [], sd_public_data = []\<rparr>"

theorem record_digest_preimage_determines_header_witness:
  defines "m1 \<equiv> sample_metadata\<lparr>sm_sig_data := [sample_sig_data [7, 7]]\<rparr>"
    and "m2 \<equiv> sample_metadata\<lparr>sm_sig_data := [sample_sig_data [0, 0]]\<rparr>"
  shows "m1 \<noteq> m2 \<and> append_signing_record [] ''t'' m1 = append_signing_record [] ''t'' m2
    \<and> sm_key_id m1 = sm_key_id m2 \<and> sm_version m1 = sm_version m2"
proof -
  have "redact_record m1 = m2"
    by (simp add: m1_def m2_def redact_record_def redact_sig_data_def sample_sig_data_def blank_def numeral_2_eq_2)
  then have eq: "append_signing_record [] ''t'' m1 = append_signing_record [] ''t'' m2"
    using append_signing_record_redact by metis
  have "sm_sig_data m1 \<noteq> sm_sig_data m2" by (simp add: m1_def m2_def sample_sig_data_def)
  then have "m1 \<noteq> m2" by auto
  with record_digest_preimage_determines_header [OF eq] eq show ?thesis
    by (simp add: m1_def m2_def sample_metadata_def)
qed

text \<open>C35: the canonical digest sees the MtA request, the proofs of the G map and the gamma
  commitments of a record only through their lengths: overwriting every byte of them with zero
  leaves the digest of the record, and the digest of every store that holds it, unchanged.\<close>

theorem record_digest_blind_to_proof_contents:
  "canonical_signing_record_digest sha256 txid (redact_record md) = canonical_signing_record_digest sha256 txid md
   \<and> signing_store_digest sha256 (st\<lparr>ss_metadata := map (\<lambda>(t, m). (t, redact_record m)) (ss_metadata st)\<rparr>)
       = signing_store_digest sha256 st"
proof -
  have "foldl (\<lambda>acc (t, m). append_signing_record acc t m) a (map (\<lambda>(t, m). (t, redact_record m)) xs)
      = foldl (\<lambda>acc (t, m). append_signing_record acc t m) a xs" for a xs
    by (rule foldl_map_cong) (simp add: append_signing_record_redact split: prod.split)
  then show ?thesis
    by (simp add: canonical_signing_record_digest_def append_signing_record_redact signing_store_digest_def)
qed

section \<open>Properties of the key store\<close>

lemma key_slot_preload:
  "om_ok ks \<Longrightarrow> key_slot (preload_key k alg x md ks) k' =
     (if k' = k then (key_slot ks k)\<lparr>ki_private_key := x, ki_algorithm := alg, ki_metadata := md, ki_has_metadata := True\<rparr>
      else key_slot ks k')"
  "om_ok ks \<Longrightarrow> key_slot (preload_aux k aux ks) k' =
     (if k' = k then (key_slot ks k)\<lparr>ki_aux_keys := aux\<rparr> else key_slot ks k')"
  by (simp_all add: key_slot_def preload_key_def preload_aux_def store_simps)

lemma key_exist_preload:
  "om_ok ks \<Longrightarrow> key_exist (preload_key k alg x md ks) k' \<longleftrightarrow> k' = k \<or> key_exist ks k'"
  "om_ok ks \<Longrightarrow> key_exist (preload_aux k aux ks) k' \<longleftrightarrow> k' = k \<or> key_exist ks k'"
  by (auto simp: key_exist_def preload_key_def preload_aux_def store_simps)

lemma om_ok_preload:
  "om_ok ks \<Longrightarrow> om_ok (preload_key k alg x md ks)" "om_ok ks \<Longrightarrow> om_ok (preload_aux k aux ks)"
  by (simp_all add: preload_key_def preload_aux_def store_simps)

text \<open>The readers answer from the slot, and only for a present key.\<close>

lemma key_reads_by_slot:
  "load_key ks k = (if key_exist ks k then Inr (ki_algorithm (key_slot ks k), ki_private_key (key_slot ks k)) else Inl BAD_KEY)"
  "load_key_metadata ks k =
     (if key_exist ks k \<and> ki_has_metadata (key_slot ks k) then Inr (ki_metadata (key_slot ks k)) else Inl BAD_KEY)"
  "load_auxiliary_keys ks k = (if key_exist ks k then Inr (ki_aux_keys (key_slot ks k)) else Inl BAD_KEY)"
  by (auto simp: load_key_def load_key_metadata_def load_auxiliary_keys_def key_exist_def key_slot_def
      split: option.split)

lemmas key_store_laws = key_reads_by_slot key_slot_preload key_exist_preload om_ok_preload

lemma default_metadata_unread:
  "\<not> ki_has_metadata i \<Longrightarrow> append_key_info lib acc (k, i\<lparr>ki_metadata := md\<rparr>) = append_key_info lib acc (k, i)"
  by (simp add: append_key_info_def Let_def split: option.split)

text \<open>A key preloaded with its auxiliary keys, in either order, is read back: the share and
  algorithm, the metadata and the auxiliary keys; a key with auxiliary keys only has no metadata,
  an absent key throws BAD_KEY from every reader, and preloading one key changes what no other key
  returns.\<close>

theorem key_store_load_after_preload:
  fixes ks :: "('pp, 'ps, 'rp, 'rs) det_key_persistency" and aux :: "('ps, 'rs) auxiliary_keys"
    and md :: "('pp, 'rp) cmp_key_metadata" and alg :: u32 and x :: bytes and k k' :: string
  assumes "om_ok ks" and "k' \<noteq> k"
  defines "s1 \<equiv> preload_aux k aux (preload_key k alg x md ks)"
    and "s2 \<equiv> preload_key k alg x md (preload_aux k aux ks)"
  shows "s1 = s2 \<and> load_key s1 k = Inr (alg, x) \<and> load_key_metadata s1 k = Inr md
    \<and> load_auxiliary_keys s1 k = Inr aux
    \<and> load_key s1 k' = load_key ks k' \<and> load_key_metadata s1 k' = load_key_metadata ks k'
    \<and> load_auxiliary_keys s1 k' = load_auxiliary_keys ks k'
    \<and> (\<not> key_exist ks k \<longrightarrow> load_key ks k = Inl BAD_KEY \<and> load_key_metadata ks k = Inl BAD_KEY
        \<and> load_auxiliary_keys ks k = Inl BAD_KEY
        \<and> load_key_metadata (preload_aux k aux ks) k = Inl BAD_KEY)"
proof -
  have "s1 = s2"
  proof (rule om_ext)
    fix j show "om_find s1 j = om_find s2 j"
      using assms(1) by (auto simp: s1_def s2_def preload_key_def preload_aux_def key_slot_def store_simps)
  qed (simp_all add: s1_def s2_def assms(1) om_ok_preload)
  moreover have "key_slot ks k = key_info_default" if "\<not> key_exist ks k"
    using that by (simp add: key_slot_def key_exist_def)
  ultimately show ?thesis
    using assms(1,2) by (auto simp: key_store_laws s1_def key_info_default_def)
qed

theorem key_store_load_after_preload_witness:
  "load_key (preload_aux ''k'' \<lparr>ak_paillier = Some (1::nat), ak_ring_pedersen = Some (2::nat)\<rparr>
     (preload_key ''k'' 0 [7] (key_metadata_default :: (nat, nat) cmp_key_metadata) [])) ''k'' = Inr (0, [7])"
proof -
  have "om_ok ([] :: (nat, nat, nat, nat) det_key_persistency)" "''j'' \<noteq> (''k'' :: string)" by simp_all
  from key_store_load_after_preload [OF this] show ?thesis by blast
qed

end
