(* ===== verification/Oracles.thy ===== *)
theory Oracles
  imports Snapshot_Codec
begin

unbundle bit_operations_syntax

text \<open>
  The signature oracles of \<^verbatim>\<open>src/harness/cmp_ecdsa_online/src/oracles.cpp\<close>. The curve contexts,
  the key derivation and the signature verification belong to the cryptographic library and are
  the fields of an \<open>algebra_lib\<close> record, an argument of the definitions. An oracle returns
  \<^term>\<open>None\<close> where the source would read past the end of a vector, and otherwise its answer and the
  text it leaves in \<^verbatim>\<open>detail\<close>.
\<close>

section \<open>What the oracles use of the library\<close>

record 'c algebra_lib =
  a_ECDSA_SECP256K1 :: u32
  a_ECDSA_SECP256R1 :: u32
  a_ECDSA_STARK :: u32
  a_new_secp256k1 :: "'c option"
  a_new_secp256r1 :: "'c option"
  a_new_stark :: "'c option"
  a_derive_public_key :: "'c \<Rightarrow> bytes \<Rightarrow> bytes \<Rightarrow> u32 list \<Rightarrow> int \<times> bytes"
  a_HD_DERIVE_SUCCESS :: int
  a_verify_signature :: "'c \<Rightarrow> bytes \<Rightarrow> bytes \<Rightarrow> bytes \<Rightarrow> bytes \<Rightarrow> int"
  a_VERIFY_SUCCESS :: int

record recoverable_signature =
  sg_r :: bytes
  sg_s :: bytes
  sg_v :: byte

text \<open>\<^verbatim>\<open>memcpy\<close> of \<open>n\<close> bytes out of a vector; reading past its end is undefined.\<close>

definition mem_read :: "nat \<Rightarrow> bytes \<Rightarrow> bytes option" where
  "mem_read n v = (if n \<le> length v then Some (take n v) else None)"

section \<open>Definitions\<close>

definition make_algebra :: "'c algebra_lib \<Rightarrow> u32 \<Rightarrow> 'c option" where
  "make_algebra al t =
     (if t = a_ECDSA_SECP256K1 al then a_new_secp256k1 al
      else if t = a_ECDSA_SECP256R1 al then a_new_secp256r1 al
      else if t = a_ECDSA_STARK al then a_new_stark al
      else None)"

function ge_loop :: "bytes \<Rightarrow> bytes \<Rightarrow> nat \<Rightarrow> nat \<Rightarrow> bool" where
  "ge_loop a b len i =
     (if i < len then
        if a ! i < b ! i then False
        else if a ! i > b ! i then True
        else ge_loop a b len (i + 1)
      else True)"
  by pat_completeness auto
termination
  by (relation "measure (\<lambda>(a, b, len, i). len - i)") auto

declare ge_loop.simps [simp del]

definition is_greater_or_equal :: "bytes \<Rightarrow> bytes \<Rightarrow> nat \<Rightarrow> bool" where
  "is_greater_or_equal a b len = ge_loop a b len 0"

definition half_n_first_8_bytes :: bytes where
  "half_n_first_8_bytes = [0x7F, 0xFF, 0xFF, 0xFF, 0x80, 0x00, 0x00, 0x00]"

definition is_positive_scalar :: "'c algebra_lib \<Rightarrow> u32 \<Rightarrow> bytes \<Rightarrow> bool" where
  "is_positive_scalar al algorithm n =
     (if algorithm = a_ECDSA_STARK al then n ! 0 < 4
      else if algorithm = a_ECDSA_SECP256R1 al
      then is_greater_or_equal n half_n_first_8_bytes (length half_n_first_8_bytes) = False
      else (n ! 0 AND 0x80) = 0)"

definition oracle_signature_valid ::
  "'c algebra_lib \<Rightarrow> snapshot \<Rightarrow> bytes \<Rightarrow> u32 list \<Rightarrow> bytes \<Rightarrow> recoverable_signature \<Rightarrow> bool
   \<Rightarrow> (bool \<times> string) option" where
  "oracle_signature_valid al snap expected_message path chaincode sig require_positive_r =
     (let algo = s_algorithm snap in
      if length expected_message \<noteq> 32 then Some (False, ''expected message is not 32 bytes'')
      else case make_algebra al algo of
        None \<Rightarrow> Some (False, ''no algebra for algorithm'')
      | Some ctx \<Rightarrow> (case mem_read 33 (s_public_key snap) of
          None \<Rightarrow> None
        | Some root \<Rightarrow>
            let (ds, derived) = a_derive_public_key al ctx root chaincode path in
            if ds \<noteq> a_HD_DERIVE_SUCCESS al
            then Some (False, ''derive_public_key_generic failed: '' @ to_string_int ds)
            else let st = a_verify_signature al ctx derived expected_message (sg_r sig) (sg_s sig) in
            if st \<noteq> a_VERIFY_SUCCESS al
            then Some (False, ''signature does not verify for the requested message and derived public key (status ''
                              @ to_string_int st @ '')'')
            else if require_positive_r \<and> \<not> is_positive_scalar al algo (sg_r sig)
            then Some (False, ''POSITIVE_R was requested but r is negative'')
            else Some (True, [])))"

definition canaries :: "bytes list" where
  "canaries = [replicate 32 0, replicate 32 0xFF, concat (replicate 8 [0xDE, 0xAD, 0xBE, 0xEF])]"

fun canary_loop :: "(bytes \<Rightarrow> bool) \<Rightarrow> nat \<Rightarrow> bytes list \<Rightarrow> bool \<times> string" where
  "canary_loop verifies i [] = (True, [])"
| "canary_loop verifies i (msg # msgs) =
     (if verifies msg
      then (False, ''signature verifies for canary message #'' @ dec_of_nat i @ '' which was never authorised'')
      else canary_loop verifies (i + 1) msgs)"

definition oracle_no_canary_forgery ::
  "'c algebra_lib \<Rightarrow> snapshot \<Rightarrow> u32 list \<Rightarrow> bytes \<Rightarrow> recoverable_signature \<Rightarrow> (bool \<times> string) option" where
  "oracle_no_canary_forgery al snap path chaincode sig =
     (case make_algebra al (s_algorithm snap) of
        None \<Rightarrow> Some (False, ''no algebra for algorithm'')
      | Some ctx \<Rightarrow> (case mem_read 33 (s_public_key snap) of
          None \<Rightarrow> None
        | Some root \<Rightarrow>
            let (ds, derived) = a_derive_public_key al ctx root chaincode path in
            if ds \<noteq> a_HD_DERIVE_SUCCESS al then Some (False, ''derive_public_key_generic failed'')
            else Some (canary_loop
              (\<lambda>msg. a_verify_signature al ctx derived msg (sg_r sig) (sg_s sig) = a_VERIFY_SUCCESS al)
              0 canaries)))"

section \<open>Big-endian numbers\<close>

definition be_nat :: "bytes \<Rightarrow> nat" where
  "be_nat = foldl (\<lambda>a x. 256 * a + unat x) 0"

lemma be_nat_Nil [simp]: "be_nat [] = 0"
  by (simp add: be_nat_def)

lemma be_nat_foldl: "foldl (\<lambda>a x. 256 * a + unat (x::byte)) a xs = a * 256 ^ length xs + be_nat xs"
proof (induction xs arbitrary: a rule: rev_induct)
  case (snoc x xs)
  show ?case using snoc [of a] snoc [of 0] by (simp add: be_nat_def algebra_simps)
qed simp

lemma be_nat_Cons: "be_nat (x # xs) = unat x * 256 ^ length xs + be_nat xs"
  using be_nat_foldl [of "unat x" xs] by (simp add: be_nat_def)

lemma be_nat_append: "be_nat (xs @ ys) = be_nat xs * 256 ^ length ys + be_nat ys"
  using be_nat_foldl [of "be_nat xs" ys] by (simp add: be_nat_def)

lemma unat_byte_bound: "unat (x :: byte) < 256"
proof -
  have "unat x < 2 ^ LENGTH(8)" by (rule unsigned_less)
  then show ?thesis by simp
qed

lemma be_nat_bound: "be_nat xs < 256 ^ length xs"
proof (induction xs)
  case (Cons x xs)
  have "unat x + 1 \<le> 256" using unat_byte_bound [of x] by simp
  then have "(unat x + 1) * 256 ^ length xs \<le> 256 * 256 ^ length xs" by (rule mult_le_mono1)
  moreover have "be_nat (x # xs) < (unat x + 1) * 256 ^ length xs"
    using Cons by (simp add: be_nat_Cons algebra_simps)
  ultimately have "be_nat (x # xs) < 256 * 256 ^ length xs" by (rule less_le_trans [rotated])
  then show ?case by simp
qed simp

lemma be_nat_head_less:
  assumes "x < (y :: byte)" "length xs = length ys"
  shows "be_nat (x # xs) < be_nat (y # ys)"
proof -
  have "be_nat (x # xs) < (unat x + 1) * 256 ^ length xs"
    using be_nat_bound [of xs] by (simp add: be_nat_Cons)
  also have "\<dots> \<le> unat y * 256 ^ length xs"
    using assms(1) by (intro mult_le_mono1) (simp add: word_less_nat_alt)
  also have "\<dots> \<le> be_nat (y # ys)" using assms(2) by (simp add: be_nat_Cons)
  finally show ?thesis .
qed

text \<open>The comparison loop is the comparison of the numbers it scans.\<close>

lemma ge_loop_eq:
  assumes "len \<le> length a" "len \<le> length b"
  shows "ge_loop a b len i \<longleftrightarrow> be_nat (drop i (take len b)) \<le> be_nat (drop i (take len a))"
  using assms
proof (induction a b len i rule: ge_loop.induct)
  case (1 a b len i)
  show ?case
  proof (cases "i < len")
    case False
    then show ?thesis by (simp add: ge_loop.simps [of a b len i])
  next
    case True
    let ?a = "drop (Suc i) (take len a)" and ?b = "drop (Suc i) (take len b)"
    have ca: "drop i (take len a) = a ! i # ?a" and cb: "drop i (take len b) = b ! i # ?b"
      using True "1.prems" by (simp_all add: Cons_nth_drop_Suc [symmetric])
    have len: "length ?a = length ?b" using "1.prems" by simp
    consider "a ! i < b ! i" | "b ! i < a ! i" | "a ! i = b ! i" by force
    then show ?thesis
    proof cases
      case 1
      then show ?thesis using True be_nat_head_less [OF 1 len] by (simp add: ge_loop.simps [of a b len i] ca cb)
    next
      case 2
      then show ?thesis
        using True be_nat_head_less [OF 2 len [symmetric]] by (auto simp: ge_loop.simps [of a b len i] ca cb)
    next
      case 3
      with True "1.IH" "1.prems" show ?thesis
        by (simp add: ge_loop.simps [of a b len i] ca cb be_nat_Cons len)
    qed
  qed
qed

lemma is_greater_or_equal_eq:
  "len \<le> length a \<Longrightarrow> len \<le> length b \<Longrightarrow>
     is_greater_or_equal a b len \<longleftrightarrow> be_nat (take len b) \<le> be_nat (take len a)"
  by (simp add: is_greater_or_equal_def ge_loop_eq)

lemma be_nat_prefix_less:
  assumes "k \<le> length n"
  shows "be_nat (take k n) < h \<longleftrightarrow> be_nat n < h * 256 ^ (length n - k)"
proof -
  let ?B = "(256::nat) ^ (length n - k)"
  have eq: "be_nat n = be_nat (take k n) * ?B + be_nat (drop k n)"
    using be_nat_append [of "take k n" "drop k n"] by simp
  have lo: "be_nat (drop k n) < ?B" using be_nat_bound [of "drop k n"] by simp
  show ?thesis
  proof
    assume "be_nat (take k n) < h"
    then have "(be_nat (take k n) + 1) * ?B \<le> h * ?B" by (intro mult_le_mono1) simp
    moreover have "be_nat n < (be_nat (take k n) + 1) * ?B" using eq lo by (simp add: algebra_simps)
    ultimately show "be_nat n < h * ?B" by simp
  next
    assume "be_nat n < h * ?B"
    then have "be_nat (take k n) * ?B < h * ?B" using eq by linarith
    then show "be_nat (take k n) < h" by (rule mult_less_cancel2 [THEN iffD1, THEN conjunct2])
  qed
qed

lemma be_nat_take_1: "n \<noteq> [] \<Longrightarrow> be_nat (take 1 n) = unat (n ! 0)"
  by (cases n) (simp_all add: be_nat_Cons)

lemma top_bit_clear: "(x AND (0x80 :: byte)) = 0 \<longleftrightarrow> unat x < 128"
proof -
  have "(x AND 0x80) = 0 \<longleftrightarrow> \<not> bit x 7" using and_exp_eq_0_iff_not_bit [of x 7] by simp
  also have "bit x 7 \<longleftrightarrow> odd (unat x div 2 ^ 7)" 
    using bit_unsigned_iff [of x 7, where 'a = nat] by (simp only: bit_iff_odd [of "unat x"]) simp
  also have "unat x div 2 ^ 7 = (if unat x < 128 then 0 else 1)"
    using unat_byte_bound [of x] by auto
  finally show ?thesis by auto
qed

section \<open>Properties\<close>

text \<open>On a 32-byte scalar the positive-r predicate is a numeric bound on the big-endian number:
  below 2 to the 250 on STARK, below 0x7FFFFFFF80000000 shifted by 192 bits on secp256r1, and below
  2 to the 255 on every other algorithm.\<close>

theorem is_positive_scalar_bounds:
  assumes "length n = 32"
  shows "is_positive_scalar al alg n \<longleftrightarrow>
    be_nat n < (if alg = a_ECDSA_STARK al then 2 ^ 250
                else if alg = a_ECDSA_SECP256R1 al then 0x7FFFFFFF80000000 * 2 ^ 192
                else 2 ^ 255)"
proof -
  have ne: "n \<noteq> []" using assms by auto
  have hd: "unat (n ! 0) < h \<longleftrightarrow> be_nat n < h * 256 ^ 31" for h
    using be_nat_prefix_less [of 1 n h] be_nat_take_1 [OF ne] assms by simp
  have h8: "be_nat half_n_first_8_bytes = 0x7FFFFFFF80000000"
    by (simp add: half_n_first_8_bytes_def be_nat_Cons)
  have p8: "be_nat (take 8 n) < h \<longleftrightarrow> be_nat n < h * 256 ^ 24" for h
    using be_nat_prefix_less [of 8 n h] assms by simp
  have r1: "\<not> is_greater_or_equal n half_n_first_8_bytes 8 \<longleftrightarrow> be_nat n < 0x7FFFFFFF80000000 * 256 ^ 24"
    using assms p8 [of "0x7FFFFFFF80000000"] h8
    by (simp add: is_greater_or_equal_eq half_n_first_8_bytes_def not_le)
  have st: "n ! 0 < 4 \<longleftrightarrow> be_nat n < 4 * 256 ^ 31"
    using hd [of 4] by (simp add: word_less_nat_alt)
  have k1: "(n ! 0 AND 0x80) = 0 \<longleftrightarrow> be_nat n < 128 * 256 ^ 31"
    using hd [of 128] by (simp add: top_bit_clear)
  have l8: "length half_n_first_8_bytes = 8" by (simp add: half_n_first_8_bytes_def)
  show ?thesis
    unfolding is_positive_scalar_def l8 using r1 st k1 by simp
qed

theorem is_positive_scalar_bounds_witness:
  "is_positive_scalar \<lparr>a_ECDSA_SECP256K1 = 0, a_ECDSA_SECP256R1 = 1, a_ECDSA_STARK = 2,
       a_new_secp256k1 = Some (), a_new_secp256r1 = None, a_new_stark = None,
       a_derive_public_key = (\<lambda>_ root _ _. (0, root)), a_HD_DERIVE_SUCCESS = 0,
       a_verify_signature = (\<lambda>_ _ _ _ _. 0), a_VERIFY_SUCCESS = 0\<rparr> 0 (0x7F # replicate 31 0xFF)"
proof -
  have "be_nat (0x7F # replicate 31 0xFF) < 128 * 256 ^ 31"
    using be_nat_prefix_less [of 1 "0x7F # replicate 31 (0xFF :: byte)" 128]
    by (simp add: be_nat_Cons)
  then show ?thesis
    by (subst is_positive_scalar_bounds) simp_all
qed

text \<open>
  The specification the oracles implement: the harness's own verification of a signature against a
  message under the key derived from the snapshot's root key.
\<close>

definition derived_key :: "'c algebra_lib \<Rightarrow> snapshot \<Rightarrow> u32 list \<Rightarrow> bytes \<Rightarrow> ('c \<times> bytes) option" where
  "derived_key al snap path chaincode =
     (case make_algebra al (s_algorithm snap) of
        None \<Rightarrow> None
      | Some ctx \<Rightarrow> (case a_derive_public_key al ctx (take 33 (s_public_key snap)) chaincode path of
          (ds, derived) \<Rightarrow> if ds = a_HD_DERIVE_SUCCESS al then Some (ctx, derived) else None))"

definition accepts :: "'c algebra_lib \<Rightarrow> 'c \<times> bytes \<Rightarrow> recoverable_signature \<Rightarrow> bytes \<Rightarrow> bool" where
  "accepts al key sig msg \<longleftrightarrow>
     a_verify_signature al (fst key) (snd key) msg (sg_r sig) (sg_s sig) = a_VERIFY_SUCCESS al"

definition key_in_bounds :: "snapshot \<Rightarrow> bool" where
  "key_in_bounds snap \<longleftrightarrow> 33 \<le> length (s_public_key snap)"

lemma canary_loop_ok: "fst (canary_loop f i ms) \<longleftrightarrow> (\<forall>m\<in>set ms. \<not> f m)"
  by (induction ms arbitrary: i) auto

lemma oracle_signature_valid_true:
  "key_in_bounds snap \<Longrightarrow>
   (\<exists>d. oracle_signature_valid al snap msg path cc sig pos = Some (True, d)) \<longleftrightarrow>
     length msg = 32 \<and> (\<exists>key. derived_key al snap path cc = Some key \<and> accepts al key sig msg)
     \<and> (pos \<longrightarrow> is_positive_scalar al (s_algorithm snap) (sg_r sig))"
  by (auto simp: oracle_signature_valid_def Let_def derived_key_def accepts_def key_in_bounds_def mem_read_def
      split: option.splits prod.splits if_splits)

lemma oracle_no_canary_forgery_true:
  "key_in_bounds snap \<Longrightarrow>
   (\<exists>d. oracle_no_canary_forgery al snap path cc sig = Some (True, d)) \<longleftrightarrow>
     (\<exists>key. derived_key al snap path cc = Some key \<and> (\<forall>m\<in>set canaries. \<not> accepts al key sig m))"
  by (auto simp: oracle_no_canary_forgery_def Let_def derived_key_def accepts_def key_in_bounds_def mem_read_def
      canary_loop_ok prod_eq_iff split: option.splits prod.splits if_splits)

lemma oracles_defined:
  assumes "key_in_bounds snap"
  shows "oracle_signature_valid al snap msg path cc sig pos \<noteq> None"
    and "oracle_no_canary_forgery al snap path cc sig \<noteq> None"
  using assms
  by (auto simp: oracle_signature_valid_def oracle_no_canary_forgery_def Let_def key_in_bounds_def mem_read_def
      split: option.splits prod.splits if_splits)

text \<open>C24: on a snapshot whose public key has at least 33 bytes both oracles answer, and they answer
  true exactly when the derived key exists and accepts the signature for the requested 32-byte
  message (with a positive r when that was requested), respectively accepts it for no canary
  message; a signature that passes both was therefore requested for a message that is no canary.\<close>

theorem signature_oracles_decide:
  assumes "key_in_bounds snap"
  shows "((\<exists>d. oracle_signature_valid al snap msg path cc sig pos = Some (True, d)) \<longleftrightarrow>
       length msg = 32 \<and> (\<exists>key. derived_key al snap path cc = Some key \<and> accepts al key sig msg)
       \<and> (pos \<longrightarrow> is_positive_scalar al (s_algorithm snap) (sg_r sig)))
    \<and> ((\<exists>d. oracle_no_canary_forgery al snap path cc sig = Some (True, d)) \<longleftrightarrow>
       (\<exists>key. derived_key al snap path cc = Some key \<and> (\<forall>m\<in>set canaries. \<not> accepts al key sig m)))
    \<and> (\<exists>r d. oracle_signature_valid al snap msg path cc sig pos = Some (r, d))
    \<and> (\<exists>r d. oracle_no_canary_forgery al snap path cc sig = Some (r, d))
    \<and> ((\<exists>d. oracle_signature_valid al snap msg path cc sig pos = Some (True, d))
        \<and> (\<exists>d. oracle_no_canary_forgery al snap path cc sig = Some (True, d)) \<longrightarrow> msg \<notin> set canaries)"
proof -
  have d: "\<exists>r d. oracle_signature_valid al snap msg path cc sig pos = Some (r, d)"
    "\<exists>r d. oracle_no_canary_forgery al snap path cc sig = Some (r, d)"
    using oracles_defined [OF assms] by auto
  show ?thesis
    by (intro conjI oracle_signature_valid_true [OF assms] oracle_no_canary_forgery_true [OF assms] d impI)
      (auto simp: oracle_signature_valid_true [OF assms] oracle_no_canary_forgery_true [OF assms])
qed

definition toy_algebra :: "unit algebra_lib" where
  "toy_algebra = \<lparr>a_ECDSA_SECP256K1 = 0, a_ECDSA_SECP256R1 = 1, a_ECDSA_STARK = 2,
     a_new_secp256k1 = Some (), a_new_secp256r1 = None, a_new_stark = None,
     a_derive_public_key = (\<lambda>_ root _ _. (0, root)), a_HD_DERIVE_SUCCESS = 0,
     a_verify_signature = (\<lambda>_ _ msg r _. if r = msg then 0 else -1), a_VERIFY_SUCCESS = 0\<rparr>"

definition toy_snapshot :: snapshot where
  "toy_snapshot = snapshot_default\<lparr>s_public_key := replicate 33 2, s_seed := replicate 32 5, s_t := 2, s_n := 3,
     s_players := [sample_player 1, sample_player 2, sample_player 3]\<rparr>"

theorem signature_oracles_decide_witness:
  "\<exists>d. oracle_signature_valid toy_algebra toy_snapshot (replicate 32 7) [44, 0, 0, 0, 0] (replicate 32 0)
     \<lparr>sg_r = replicate 32 7, sg_s = replicate 32 1, sg_v = 0\<rparr> True = Some (True, d)"
proof -
  have k: "key_in_bounds toy_snapshot" by (simp add: key_in_bounds_def toy_snapshot_def)
  have p: "is_positive_scalar toy_algebra 0 (replicate 32 7)" by code_simp
  show ?thesis
    using signature_oracles_decide [OF k, of toy_algebra "replicate 32 7"] p
    by (simp add: derived_key_def make_algebra_def toy_algebra_def accepts_def toy_snapshot_def
        snapshot_default_def)
qed

end
