(* ===== verification/Snapshot_Setup.thy ===== *)
theory Snapshot_Setup
  imports Fixtures Snapshot_Codec Oracles
begin

text \<open>
  Making, checking and installing a snapshot: \<^verbatim>\<open>generate_snapshot\<close>, \<^verbatim>\<open>verify_snapshot\<close> and
  \<^verbatim>\<open>install_snapshot\<close> of \<^verbatim>\<open>src/harness/cmp_ecdsa_online/src/snapshot.cpp\<close>. The curve arithmetic, the key generators and the deserialisers of the
  library extend the \<open>crypto_lib\<close> record; what a theorem needs of them is a named hypothesis. A copy
  out of a vector that is too short is the fault \<open>Out_of_bounds\<close>.
\<close>

section \<open>What the setup code uses of the library\<close>

record ('pp, 'ps, 'rp, 'rs) setup_lib = "('pp, 'ps, 'rp, 'rs) crypto_lib" +
  c_sha512 :: "bytes \<Rightarrow> bytes"
  c_algebra_created :: bool
  c_ECDSA_SECP256K1 :: u32
  c_reduce :: "bytes \<Rightarrow> bytes option"
  c_generator_mul :: "bytes \<Rightarrow> bytes option"
  c_add_scalars :: "bytes \<Rightarrow> bytes \<Rightarrow> bytes option"
  c_PAILLIER_SUCCESS :: int
  c_paillier_generate :: "u32 \<Rightarrow> drbg_state \<Rightarrow> (int \<times> 'pp option \<times> 'ps option) \<times> drbg_state"
  c_RING_PEDERSEN_SUCCESS :: int
  c_ring_pedersen_generate :: "u32 \<Rightarrow> drbg_state \<Rightarrow> (int \<times> 'rp option \<times> 'rs option) \<times> drbg_state"
  c_pp_deserialize :: "bytes \<Rightarrow> 'pp option"
  c_ps_deserialize :: "bytes \<Rightarrow> 'ps option"
  c_rp_deserialize :: "bytes \<Rightarrow> 'rp option"
  c_rs_deserialize :: "bytes \<Rightarrow> 'rs option"

definition PAILLIER_KEY_BITS :: u32 where
  "PAILLIER_KEY_BITS = 32 * 8 * 8"

definition RING_PEDERSEN_KEY_BITS :: u32 where
  "RING_PEDERSEN_KEY_BITS = 32 * 8 * 4"

section \<open>Serialising keys\<close>

text \<open>The length query, the sized buffer and the call that fills it.\<close>

definition ser_obj :: "('k \<Rightarrow> nat) \<Rightarrow> ('k \<Rightarrow> nat \<Rightarrow> bytes option) \<Rightarrow> 'k \<Rightarrow> bytes option" where
  "ser_obj need ser k = (if need k = 0 then None else ser k (need k))"

definition ser_paillier_pub :: "('pp, 'ps, 'rp, 'rs) setup_lib \<Rightarrow> 'pp \<Rightarrow> bytes option" where
  "ser_paillier_pub lib k = (if c_pp_need lib k = 0 then None else c_pp_serialize lib k (c_pp_need lib k))"

definition ser_paillier_priv :: "('pp, 'ps, 'rp, 'rs) setup_lib \<Rightarrow> 'ps \<Rightarrow> bytes option" where
  "ser_paillier_priv lib k = (if c_ps_need lib k = 0 then None else c_ps_serialize lib k (c_ps_need lib k))"

definition ser_rp_pub :: "('pp, 'ps, 'rp, 'rs) setup_lib \<Rightarrow> 'rp \<Rightarrow> bytes option" where
  "ser_rp_pub lib k = (if c_rp_need lib k = 0 then None else c_rp_serialize lib k (c_rp_need lib k))"

definition ser_rp_priv :: "('pp, 'ps, 'rp, 'rs) setup_lib \<Rightarrow> 'rs \<Rightarrow> bytes option" where
  "ser_rp_priv lib k = (if c_rs_need lib k = 0 then None else c_rs_serialize lib k (c_rs_need lib k))"

text \<open>A buffer passed with its size cast to \<^verbatim>\<open>uint32_t\<close>.\<close>

definition sized :: "bytes \<Rightarrow> bytes" where
  "sized v = take (unat (of_nat (length v) :: u32)) v"

section \<open>Generating\<close>

definition share_label :: "u64 \<Rightarrow> string" where
  "share_label pid = ''opus-share-'' @ to_string_u64 pid"

definition share_material :: "('pp, 'ps, 'rp, 'rs) setup_lib \<Rightarrow> u64 \<Rightarrow> bytes" where
  "share_material lib pid =
     c_sha256 lib (take (min 64 (length (share_label pid))) (string_bytes (share_label pid)))"

text \<open>The accumulated sum of the designated signers' shares: the scalar and the \<^verbatim>\<open>first\<close> flag.\<close>

definition add_share ::
  "('pp, 'ps, 'rp, 'rs) setup_lib \<Rightarrow> bool \<Rightarrow> bytes \<Rightarrow> string \<Rightarrow> bytes \<times> bool \<Rightarrow> string + (bytes \<times> bool)" where
  "add_share lib designated x msg acc =
     (let (sm, first) = acc in
      if \<not> designated then Inr (sm, first)
      else if first then Inr (x, False)
      else ebind (some_or (c_add_scalars lib sm x) msg) (\<lambda>sm'. Inr (sm', False)))"

definition gen_paillier ::
  "('pp, 'ps, 'rp, 'rs) setup_lib \<Rightarrow> drbg_state \<Rightarrow> (string + (bytes \<times> bytes)) \<times> drbg_state" where
  "gen_paillier lib g =
     (let ((pres, pp, ps), g') = c_paillier_generate lib PAILLIER_KEY_BITS g in
      (case (pp, ps) of
         (Some pub, Some priv) \<Rightarrow>
           if pres \<noteq> c_PAILLIER_SUCCESS lib then Inl (''paillier_generate_key_pair failed: '' @ to_string_int pres)
           else (case (ser_paillier_pub lib pub, ser_paillier_priv lib priv) of
                   (Some a, Some b) \<Rightarrow> Inr (a, b)
                 | _ \<Rightarrow> Inl ''paillier serialization failed'')
       | _ \<Rightarrow> Inl (''paillier_generate_key_pair failed: '' @ to_string_int pres), g'))"

definition gen_ring_pedersen ::
  "('pp, 'ps, 'rp, 'rs) setup_lib \<Rightarrow> drbg_state \<Rightarrow> (string + (bytes \<times> bytes)) \<times> drbg_state" where
  "gen_ring_pedersen lib g =
     (let ((rres, rpp, rps), g') = c_ring_pedersen_generate lib RING_PEDERSEN_KEY_BITS g in
      (case (rpp, rps) of
         (Some pub, Some priv) \<Rightarrow>
           if rres \<noteq> c_RING_PEDERSEN_SUCCESS lib
           then Inl (''ring_pedersen_generate_key_pair failed: '' @ to_string_int rres)
           else (case (ser_rp_pub lib pub, ser_rp_priv lib priv) of
                   (Some a, Some b) \<Rightarrow> Inr (a, b)
                 | _ \<Rightarrow> Inl ''ring pedersen serialization failed'')
       | _ \<Rightarrow> Inl (''ring_pedersen_generate_key_pair failed: '' @ to_string_int rres), g'))"

text \<open>The curve part of one player: its share, its public share and the new sum.\<close>

definition gen_share ::
  "('pp, 'ps, 'rp, 'rs) setup_lib \<Rightarrow> bool \<Rightarrow> u64 \<Rightarrow> bytes \<times> bool \<Rightarrow> string + (bytes \<times> bytes \<times> bytes \<times> bool)" where
  "gen_share lib designated pid acc =
     ebind (some_or (c_reduce lib (share_material lib pid))
              (''algebra->reduce failed for player '' @ to_string_u64 pid)) (\<lambda>reduced.
     ebind (some_or (c_generator_mul lib reduced)
              (''generator_mul failed for player '' @ to_string_u64 pid)) (\<lambda>pub_share.
     ebind (add_share lib designated reduced (''add_scalars failed for player '' @ to_string_u64 pid) acc) (\<lambda>acc'.
     Inr (reduced, pub_share, acc'))))"

fun gen_players ::
  "('pp, 'ps, 'rp, 'rs) setup_lib \<Rightarrow> nat \<Rightarrow> nat \<Rightarrow> u64 list \<Rightarrow> bytes \<times> bool \<Rightarrow> snapshot_player list \<Rightarrow> drbg_state
   \<Rightarrow> (string + (snapshot_player list \<times> bytes)) \<times> drbg_state" where
  "gen_players lib t idx [] acc built g = (Inr (built, fst acc), g)"
| "gen_players lib t idx (pid # ids) acc built g =
     (case gen_share lib (idx < t) pid acc of
        Inl e \<Rightarrow> (Inl e, g)
      | Inr (share, pub_share, acc') \<Rightarrow>
          (case gen_paillier lib g of
             (Inl e, g1) \<Rightarrow> (Inl e, g1)
           | (Inr (pp, ps), g1) \<Rightarrow>
               (case gen_ring_pedersen lib g1 of
                  (Inl e, g2) \<Rightarrow> (Inl e, g2)
                | (Inr (rp, rs), g2) \<Rightarrow>
                    gen_players lib t (idx + 1) ids acc'
                      (built @ [\<lparr>sp_id = pid, sp_share = share, sp_public_share = pub_share, sp_paillier_pub = pp,
                                sp_paillier_priv = ps, sp_rp_pub = rp, sp_rp_priv = rs\<rparr>]) g2)))"

definition generate_snapshot ::
  "('pp, 'ps, 'rp, 'rs) setup_lib \<Rightarrow> u64 \<Rightarrow> u64 list \<Rightarrow> byte \<Rightarrow> drbg_state \<Rightarrow> (string + snapshot) \<times> drbg_state" where
  "generate_snapshot lib seed ids t0 g =
     (if length ids < 2
      then (Inl ''need at least 2 players (a run with fewer cannot have both an honest and a malicious party)'', g)
      else let t = (if t0 = 0 then of_nat (length ids) else t0) in
      if t < 2 \<or> length ids < unat t then (Inl ''threshold out of range: need 2 <= t <= player count'', g)
      else let g1 = reseed_with_label (c_sha512 lib) seed ''opus-snapshot-v1'' g in
      if \<not> c_algebra_created lib then (Inl ''failed to create secp256k1 algebra'', g1)
      else (case gen_players lib (unat t) 0 ids (replicate 32 0, True) [] g1 of
          (Inl e, g2) \<Rightarrow> (Inl e, g2)
        | (Inr (players, sm), g2) \<Rightarrow>
            (case c_generator_mul lib sm of
               None \<Rightarrow> (Inl ''generator_mul failed for the aggregate public key'', g2)
             | Some X \<Rightarrow> (Inr \<lparr>s_algorithm = c_ECDSA_SECP256K1 lib, s_public_key = X, s_seed = replicate 32 0,
                            s_t = t, s_n = of_nat (length ids), s_players = players\<rparr>, g2))))"

section \<open>Verifying\<close>

definition verify_share ::
  "('pp, 'ps, 'rp, 'rs) setup_lib \<Rightarrow> bool \<Rightarrow> snapshot_player \<Rightarrow> bytes \<times> bool \<Rightarrow> string + (bytes \<times> bool)" where
  "verify_share lib designated p acc =
     ebind (require (length (sp_share p) = 32) ''bad share length'') (\<lambda>_.
     ebind (require (length (sp_public_share p) = 33) ''bad public_share length'') (\<lambda>_.
     ebind (some_or (c_generator_mul lib (sp_share p))
              (''generator_mul failed while verifying player '' @ to_string_u64 (sp_id p))) (\<lambda>expect.
     ebind (require (expect = sp_public_share p)
              (''public_share != g^share for player '' @ to_string_u64 (sp_id p))) (\<lambda>_.
     add_share lib designated (sp_share p) ''add_scalars failed'' acc))))"

definition verify_aux :: "('pp, 'ps, 'rp, 'rs) setup_lib \<Rightarrow> snapshot_player \<Rightarrow> string + unit" where
  "verify_aux lib p =
     ebind (some_or (c_ps_deserialize lib (sized (sp_paillier_priv p)))
              (''paillier private deserialize failed for player '' @ to_string_u64 (sp_id p))) (\<lambda>ppriv.
     ebind (some_or (ser_paillier_pub lib (c_ps_public lib ppriv)) ''paillier public projection failed'') (\<lambda>derived_pub.
     ebind (require (derived_pub = sp_paillier_pub p)
              (''paillier public != public(private) for player '' @ to_string_u64 (sp_id p))) (\<lambda>_.
     ebind (some_or (c_rs_deserialize lib (sized (sp_rp_priv p)))
              (''ring pedersen private deserialize failed for player '' @ to_string_u64 (sp_id p))) (\<lambda>rpriv.
     ebind (some_or (ser_rp_pub lib (c_rs_public lib rpriv)) ''ring pedersen public projection failed'') (\<lambda>derived_rp.
     require (derived_rp = sp_rp_pub p)
       (''ring pedersen public != public(private) for player '' @ to_string_u64 (sp_id p)))))))"

fun verify_players ::
  "('pp, 'ps, 'rp, 'rs) setup_lib \<Rightarrow> nat \<Rightarrow> nat \<Rightarrow> snapshot_player list \<Rightarrow> bytes \<times> bool \<Rightarrow> string + bytes" where
  "verify_players lib t idx [] acc = Inr (fst acc)"
| "verify_players lib t idx (p # ps) acc =
     ebind (verify_share lib (idx < t) p acc) (\<lambda>acc'.
     ebind (verify_aux lib p) (\<lambda>_. verify_players lib t (idx + 1) ps acc'))"

definition verify_snapshot :: "('pp, 'ps, 'rp, 'rs) setup_lib \<Rightarrow> snapshot \<Rightarrow> string + unit" where
  "verify_snapshot lib s =
     ebind (require (c_algebra_created lib) ''no algebra'') (\<lambda>_.
     ebind (require (2 \<le> length (s_players s)) ''fewer than 2 players'') (\<lambda>_.
     ebind (require (2 \<le> s_t s \<and> unat (s_t s) \<le> length (s_players s)) ''t outside 2..player count'') (\<lambda>_.
     ebind (require (unat (s_n s) = length (s_players s)) ''n != player count'') (\<lambda>_.
     ebind (require (length (s_public_key s) = 33) ''bad public key length'') (\<lambda>_.
     ebind (require (length (s_seed s) = 32) ''bad seed length'') (\<lambda>_.
     ebind (verify_players lib (unat (s_t s)) 0 (s_players s) (replicate 32 0, True)) (\<lambda>sm.
     ebind (some_or (c_generator_mul lib sm) ''generator_mul failed for aggregate'') (\<lambda>X.
     require (X = s_public_key s) ''public_key != g^(sum of shares)''))))))))"

section \<open>Installing\<close>

datatype fault = Out_of_bounds | Err string

fun install_infos ::
  "('pp, 'ps, 'rp, 'rs) setup_lib \<Rightarrow> snapshot_player list \<Rightarrow> (u64, ('pp, 'rp) cmp_player_info) omap
   \<Rightarrow> fault + (u64, ('pp, 'rp) cmp_player_info) omap" where
  "install_infos lib [] infos = Inr infos"
| "install_infos lib (p # ps) infos =
     ebind (some_or (mem_read 33 (sp_public_share p)) Out_of_bounds) (\<lambda>share.
     ebind (some_or (c_pp_deserialize lib (sized (sp_paillier_pub p)))
              (Err (''paillier public deserialize failed for '' @ to_string_u64 (sp_id p)))) (\<lambda>ppub.
     ebind (some_or (c_rp_deserialize lib (sized (sp_rp_pub p)))
              (Err (''ring pedersen public deserialize failed for '' @ to_string_u64 (sp_id p)))) (\<lambda>rpub.
     install_infos lib ps
       (om_set (sp_id p) \<lparr>pi_public_share = share, pi_paillier = Some ppub, pi_ring_pedersen = Some rpub\<rparr> infos))))"

fun install_keys ::
  "('pp, 'ps, 'rp, 'rs) setup_lib \<Rightarrow> string \<Rightarrow> u32 \<Rightarrow> ('pp, 'rp) cmp_key_metadata \<Rightarrow> snapshot_player list
   \<Rightarrow> (u64, ('pp, 'ps, 'rp, 'rs) det_key_persistency) omap
   \<Rightarrow> (fault + unit) \<times> (u64, ('pp, 'ps, 'rp, 'rs) det_key_persistency) omap" where
  "install_keys lib key_id alg md [] stores = (Inr (), stores)"
| "install_keys lib key_id alg md (p # ps) stores =
     (case om_find stores (sp_id p) of
        None \<Rightarrow> (Inl (Err (''no key store for player '' @ to_string_u64 (sp_id p))), stores)
      | Some ks \<Rightarrow>
          (case mem_read 32 (sp_share p) of
             None \<Rightarrow> (Inl Out_of_bounds, stores)
           | Some share \<Rightarrow>
               let ks1 = preload_key key_id alg share md ks;
                   stores1 = om_set (sp_id p) ks1 stores
               in (case c_ps_deserialize lib (sized (sp_paillier_priv p)) of
                     None \<Rightarrow> (Inl (Err (''paillier private deserialize failed for '' @ to_string_u64 (sp_id p))), stores1)
                   | Some ppriv \<Rightarrow>
                       (case c_rs_deserialize lib (sized (sp_rp_priv p)) of
                          None \<Rightarrow> (Inl (Err (''ring pedersen private deserialize failed for ''
                                     @ to_string_u64 (sp_id p))), stores1)
                        | Some rpriv \<Rightarrow>
                            install_keys lib key_id alg md ps
                              (om_set (sp_id p)
                                 (preload_aux key_id \<lparr>ak_paillier = Some ppriv, ak_ring_pedersen = Some rpriv\<rparr> ks1)
                                 stores1)))))"

definition install_snapshot ::
  "('pp, 'ps, 'rp, 'rs) setup_lib \<Rightarrow> snapshot \<Rightarrow> string
   \<Rightarrow> (u64, ('pp, 'ps, 'rp, 'rs) det_key_persistency) omap
   \<Rightarrow> (fault + unit) \<times> (u64, ('pp, 'ps, 'rp, 'rs) det_key_persistency) omap" where
  "install_snapshot lib s key_id stores =
     (case mem_read 33 (s_public_key s) of
        None \<Rightarrow> (Inl Out_of_bounds, stores)
      | Some pk \<Rightarrow>
          (case mem_read 32 (s_seed s) of
             None \<Rightarrow> (Inl Out_of_bounds, stores)
           | Some seed \<Rightarrow>
               (case install_infos lib (s_players s) [] of
                  Inl e \<Rightarrow> (Inl e, stores)
                | Inr infos \<Rightarrow>
                    install_keys lib key_id (s_algorithm s)
                      \<lparr>km_public_key = pk, km_algorithm = s_algorithm s, km_t = s_t s, km_n = s_n s, km_flags = 0,
                       km_ttl = 0, km_seed = seed, km_players_info = infos\<rparr>
                      (s_players s) stores)))"

section \<open>A generated snapshot passes its own verification\<close>

text \<open>
  Documented behaviour of the library: scalars have 32 bytes and compressed points 33, and a key
  pair that was generated and serialised is read back with the same serialised public projection.
\<close>

definition curve_sizes :: "('pp, 'ps, 'rp, 'rs) setup_lib \<Rightarrow> bool" where
  "curve_sizes lib \<longleftrightarrow> (\<forall>x y. c_reduce lib x = Some y \<longrightarrow> length y = 32)
     \<and> (\<forall>x y. c_generator_mul lib x = Some y \<longrightarrow> length y = 33)"

definition paillier_roundtrip :: "('pp, 'ps, 'rp, 'rs) setup_lib \<Rightarrow> bool" where
  "paillier_roundtrip lib \<longleftrightarrow>
     (\<forall>bits g pp ps g' a b. c_paillier_generate lib bits g = ((c_PAILLIER_SUCCESS lib, Some pp, Some ps), g')
        \<and> ser_paillier_pub lib pp = Some a \<and> ser_paillier_priv lib ps = Some b \<longrightarrow>
        (\<exists>ps'. c_ps_deserialize lib (sized b) = Some ps' \<and> ser_paillier_pub lib (c_ps_public lib ps') = Some a))"

definition ring_pedersen_roundtrip :: "('pp, 'ps, 'rp, 'rs) setup_lib \<Rightarrow> bool" where
  "ring_pedersen_roundtrip lib \<longleftrightarrow>
     (\<forall>bits g rp rs g' a b. c_ring_pedersen_generate lib bits g = ((c_RING_PEDERSEN_SUCCESS lib, Some rp, Some rs), g')
        \<and> ser_rp_pub lib rp = Some a \<and> ser_rp_priv lib rs = Some b \<longrightarrow>
        (\<exists>rs'. c_rs_deserialize lib (sized b) = Some rs' \<and> ser_rp_pub lib (c_rs_public lib rs') = Some a))"

lemma add_share_msg: "add_share lib d x m acc = Inr r \<Longrightarrow> add_share lib d x m' acc = Inr r"
  by (auto simp: add_share_def ok_simps split: prod.splits if_splits)

lemma gen_share_verify:
  assumes "gen_share lib d pid acc = Inr (share, pub, acc')" and "curve_sizes lib"
    and "sp_share p = share" "sp_public_share p = pub"
  shows "verify_share lib d p acc = Inr acc'"
  using assms
  by (auto simp: gen_share_def verify_share_def ok_simps curve_sizes_def dest: add_share_msg)

lemma gen_paillier_ok:
  assumes "gen_paillier lib g = (Inr (a, b), g')" and "paillier_roundtrip lib"
  obtains ps where "c_ps_deserialize lib (sized b) = Some ps" "ser_paillier_pub lib (c_ps_public lib ps) = Some a"
  using assms unfolding gen_paillier_def paillier_roundtrip_def Let_def
  by (force split: prod.splits option.splits if_splits)

lemma gen_ring_pedersen_ok:
  assumes "gen_ring_pedersen lib g = (Inr (a, b), g')" and "ring_pedersen_roundtrip lib"
  obtains rs where "c_rs_deserialize lib (sized b) = Some rs" "ser_rp_pub lib (c_rs_public lib rs) = Some a"
  using assms unfolding gen_ring_pedersen_def ring_pedersen_roundtrip_def Let_def
  by (force split: prod.splits option.splits if_splits)

text \<open>The loop of the generator, inverted: what it appends and what it has drawn on.\<close>

lemma gen_players_ConsE:
  assumes "gen_players lib t idx (pid # ids) acc built g = (Inr (ps, x), g')"
  obtains share pub acc' pp pr g1 rp rr g2 where
    "gen_share lib (idx < t) pid acc = Inr (share, pub, acc')"
    "gen_paillier lib g = (Inr (pp, pr), g1)" "gen_ring_pedersen lib g1 = (Inr (rp, rr), g2)"
    "gen_players lib t (idx + 1) ids acc'
       (built @ [\<lparr>sp_id = pid, sp_share = share, sp_public_share = pub, sp_paillier_pub = pp,
                  sp_paillier_priv = pr, sp_rp_pub = rp, sp_rp_priv = rr\<rparr>]) g2 = (Inr (ps, x), g')"
  using assms by (auto split: sum.splits prod.splits)

lemma gen_players_verify:
  assumes "gen_players lib t idx ids acc built g = (Inr (ps, x), g')"
    and lib: "curve_sizes lib" "paillier_roundtrip lib" "ring_pedersen_roundtrip lib"
  shows "\<exists>new. ps = built @ new \<and> map sp_id new = ids \<and> verify_players lib t idx new acc = Inr x"
  using assms(1)
proof (induction ids arbitrary: idx acc built g)
  case (Cons pid ids)
  from Cons.prems obtain share pub acc' pp pr g1 rp rr g2 where
    sh: "gen_share lib (idx < t) pid acc = Inr (share, pub, acc')"
    and pa: "gen_paillier lib g = (Inr (pp, pr), g1)" and rp: "gen_ring_pedersen lib g1 = (Inr (rp, rr), g2)"
    and rest: "gen_players lib t (idx + 1) ids acc'
       (built @ [\<lparr>sp_id = pid, sp_share = share, sp_public_share = pub, sp_paillier_pub = pp,
                  sp_paillier_priv = pr, sp_rp_pub = rp, sp_rp_priv = rr\<rparr>]) g2 = (Inr (ps, x), g')"
    by (rule gen_players_ConsE)
  let ?p = "\<lparr>sp_id = pid, sp_share = share, sp_public_share = pub, sp_paillier_pub = pp,
                  sp_paillier_priv = pr, sp_rp_pub = rp, sp_rp_priv = rr\<rparr>"
  from Cons.IH [OF rest] obtain new where
    new: "ps = (built @ [?p]) @ new" "map sp_id new = ids" "verify_players lib t (idx + 1) new acc' = Inr x"
    by blast
  have "verify_share lib (idx < t) ?p acc = Inr acc'"
    by (rule gen_share_verify [OF sh lib(1)]) simp_all
  moreover have "verify_aux lib ?p = Inr ()"
    by (rule gen_paillier_ok [OF pa lib(2)], rule gen_ring_pedersen_ok [OF rp lib(3)])
      (simp add: verify_aux_def)
  ultimately show ?case using new by (intro exI [of _ "?p # new"]) simp
qed simp

lemma generate_snapshot_InrE:
  assumes "generate_snapshot lib seed ids t0 g = (Inr s, g')"
  obtains t ps x X where "t = (if t0 = 0 then of_nat (length ids) else t0)"
    "2 \<le> length ids" "2 \<le> t" "unat t \<le> length ids" "c_algebra_created lib"
    "gen_players lib (unat t) 0 ids (replicate 32 0, True) []
       (reseed_with_label (c_sha512 lib) seed ''opus-snapshot-v1'' g) = (Inr (ps, x), g')"
    "c_generator_mul lib x = Some X"
    "s = \<lparr>s_algorithm = c_ECDSA_SECP256K1 lib, s_public_key = X, s_seed = replicate 32 0,
           s_t = t, s_n = of_nat (length ids), s_players = ps\<rparr>"
proof -
  define t where "t = (if t0 = 0 then of_nat (length ids) else t0)"
  note def = assms [unfolded generate_snapshot_def Let_def, folded t_def]
  then have g: "2 \<le> length ids" "2 \<le> t" "unat t \<le> length ids" "c_algebra_created lib"
    by (auto simp: not_less split: if_splits)
  with def obtain ps x X where
    "gen_players lib (unat t) 0 ids (replicate 32 0, True) []
       (reseed_with_label (c_sha512 lib) seed ''opus-snapshot-v1'' g) = (Inr (ps, x), g')"
    "c_generator_mul lib x = Some X"
    "s = \<lparr>s_algorithm = c_ECDSA_SECP256K1 lib, s_public_key = X, s_seed = replicate 32 0,
           s_t = t, s_n = of_nat (length ids), s_players = ps\<rparr>"
    by (auto simp: not_less split: sum.splits prod.splits option.splits if_splits)
  then show ?thesis by (rule that [OF t_def g])
qed

text \<open>C15: a snapshot that \<^verbatim>\<open>generate_snapshot\<close> produces for fewer than 256 players, with the library's
  documented sizes and key round trips, has the requested players in order and the requested
  threshold, and passes \<^verbatim>\<open>verify_snapshot\<close>.\<close>

theorem generated_snapshot_verifies:
  assumes "generate_snapshot lib seed ids t g = (Inr s, g')" and "length ids < 256"
    and "curve_sizes lib" "paillier_roundtrip lib" "ring_pedersen_roundtrip lib"
  shows "verify_snapshot lib s = Inr () \<and> player_ids s = ids \<and> unat (s_n s) = length ids
    \<and> unat (s_t s) = (if t = 0 then length ids else unat t) \<and> s_algorithm s = c_ECDSA_SECP256K1 lib"
proof -
  from assms(1) obtain t' ps x X where t': "t' = (if t = 0 then of_nat (length ids) else t)"
    and g: "2 \<le> length ids" "2 \<le> t'" "unat t' \<le> length ids" "c_algebra_created lib"
    and gp: "gen_players lib (unat t') 0 ids (replicate 32 0, True) []
       (reseed_with_label (c_sha512 lib) seed ''opus-snapshot-v1'' g) = (Inr (ps, x), g')"
    and X: "c_generator_mul lib x = Some X"
    and s: "s = \<lparr>s_algorithm = c_ECDSA_SECP256K1 lib, s_public_key = X, s_seed = replicate 32 0,
              s_t = t', s_n = of_nat (length ids), s_players = ps\<rparr>"
    by (rule generate_snapshot_InrE)
  have n: "unat (of_nat (length ids) :: byte) = length ids" using assms(2) by (simp add: unat_of_nat)
  from gen_players_verify [OF gp assms(3-5)] have ids: "map sp_id ps = ids"
    and v: "verify_players lib (unat t') 0 ps (replicate 32 0, True) = Inr x" by auto
  then have len: "length ps = length ids" by auto
  have "length X = 33" using X assms(3) by (simp add: curve_sizes_def)
  with g len v X n have "verify_snapshot lib s = Inr ()"
    unfolding s verify_snapshot_def by simp
  with n ids show ?thesis by (simp add: s t' player_ids_def)
qed

text \<open>A concrete library: keys are numbers, a generator hands out the number of bytes drawn so far.\<close>

definition pad :: "nat \<Rightarrow> bytes \<Rightarrow> bytes" where
  "pad n x = take n (x @ replicate n 0)"

lemma length_pad [simp]: "length (pad n x) = n"
  by (simp add: pad_def)

definition toy_lib :: "(nat, nat, nat, nat) setup_lib" where
  "toy_lib = \<lparr>c_sha256 = pad 32,
     c_pp_need = (\<lambda>_. 8), c_pp_serialize = (\<lambda>k _. Some (be_bytes 8 (of_nat k :: u64))),
     c_ps_need = (\<lambda>_. 8), c_ps_serialize = (\<lambda>k _. Some (be_bytes 8 (of_nat k :: u64))), c_ps_public = id,
     c_rp_need = (\<lambda>_. 8), c_rp_serialize = (\<lambda>k _. Some (be_bytes 8 (of_nat k :: u64))),
     c_rs_need = (\<lambda>_. 8), c_rs_serialize = (\<lambda>k _. Some (be_bytes 8 (of_nat k :: u64))), c_rs_public = id,
     c_sha512 = pad 64, c_algebra_created = True, c_ECDSA_SECP256K1 = 0,
     c_reduce = (\<lambda>x. Some (pad 32 x)), c_generator_mul = (\<lambda>x. Some (pad 33 (2 # x))),
     c_add_scalars = (\<lambda>x y. Some (pad 32 (map2 (+) x y))),
     c_PAILLIER_SUCCESS = 0,
     c_paillier_generate = (\<lambda>_ g. ((0, Some (unat (d_drawn g)), Some (unat (d_drawn g))), g\<lparr>d_drawn := d_drawn g + 1\<rparr>)),
     c_RING_PEDERSEN_SUCCESS = 0,
     c_ring_pedersen_generate = (\<lambda>_ g. ((0, Some (unat (d_drawn g)), Some (unat (d_drawn g))), g\<lparr>d_drawn := d_drawn g + 1\<rparr>)),
     c_pp_deserialize = (\<lambda>b. Some (unat (be_accum 0 b :: u64))),
     c_ps_deserialize = (\<lambda>b. Some (unat (be_accum 0 b :: u64))),
     c_rp_deserialize = (\<lambda>b. Some (unat (be_accum 0 b :: u64))),
     c_rs_deserialize = (\<lambda>b. Some (unat (be_accum 0 b :: u64)))\<rparr>"

lemma toy_lib_documented: "curve_sizes toy_lib" "paillier_roundtrip toy_lib" "ring_pedersen_roundtrip toy_lib"
  by (auto simp: curve_sizes_def paillier_roundtrip_def ring_pedersen_roundtrip_def toy_lib_def
      ser_paillier_pub_def ser_paillier_priv_def ser_rp_pub_def ser_rp_priv_def sized_def)

lemma toy_generates: "\<exists>s g'. generate_snapshot toy_lib seed [1, 2, 3] 2 g = (Inr s, g')"
  by (simp add: Let_def generate_snapshot_def toy_lib_def gen_share_def add_share_def gen_paillier_def
      gen_ring_pedersen_def ser_paillier_pub_def ser_paillier_priv_def ser_rp_pub_def ser_rp_priv_def)

theorem generated_snapshot_verifies_witness:
  "\<exists>s. fst (generate_snapshot toy_lib 7 [1, 2, 3] 2 g_state_init) = Inr s \<and> verify_snapshot toy_lib s = Inr ()"
proof -
  obtain s g' where "generate_snapshot toy_lib 7 [1, 2, 3] 2 g_state_init = (Inr s, g')"
    using toy_generates [of 7 g_state_init] by blast
  with generated_snapshot_verifies [OF this _ toy_lib_documented] show ?thesis by force
qed

section \<open>What a snapshot depends on\<close>

lemma gen_players_curve_part:
  assumes "gen_players lib t idx ids acc built g = (Inr (ps, x), g1)"
    and "gen_players lib t idx ids acc built' h = (Inr (qs, y), h1)"
    and "map sp_share built = map sp_share built'" "map sp_public_share built = map sp_public_share built'"
  shows "map sp_share ps = map sp_share qs \<and> map sp_public_share ps = map sp_public_share qs \<and> x = y"
  using assms
proof (induction ids arbitrary: idx acc built built' g h)
  case (Cons pid ids)
  show ?case
    by (rule gen_players_ConsE [OF Cons.prems(1)], rule gen_players_ConsE [OF Cons.prems(2)])
      (rule Cons.IH, assumption, use Cons.prems in auto)
qed simp

text \<open>The secret shares, the public shares and the aggregate public key of a generated snapshot
  depend on the player ids and the threshold only: any two seeds, from any generator states, give
  the same ones, so the seed varies nothing but the auxiliary keys.\<close>

theorem generated_shares_ignore_the_seed:
  assumes "generate_snapshot lib seed ids t g = (Inr s, g')"
    and "generate_snapshot lib seed' ids t h = (Inr s', h')"
  shows "map sp_share (s_players s) = map sp_share (s_players s')
    \<and> map sp_public_share (s_players s) = map sp_public_share (s_players s')
    \<and> s_public_key s = s_public_key s'"
  by (rule generate_snapshot_InrE [OF assms(1)], rule generate_snapshot_InrE [OF assms(2)])
    (use gen_players_curve_part in fastforce)

theorem generated_shares_ignore_the_seed_witness:
  "\<exists>s s' g g'. generate_snapshot toy_lib 7 [1, 2, 3] 2 g_state_init = (Inr s, g)
     \<and> generate_snapshot toy_lib 8 [1, 2, 3] 2 g_state_init = (Inr s', g')
     \<and> s_public_key s = s_public_key s'"
proof -
  obtain s g where 1: "generate_snapshot toy_lib 7 [1, 2, 3] 2 g_state_init = (Inr s, g)"
    using toy_generates [of 7 g_state_init] by blast
  obtain s' g' where 2: "generate_snapshot toy_lib 8 [1, 2, 3] 2 g_state_init = (Inr s', g')"
    using toy_generates [of 8 g_state_init] by blast
  from generated_shares_ignore_the_seed [OF 1 2] 1 2 show ?thesis by blast
qed

section \<open>What verification does and does not look at\<close>

lemma verify_players_lengths:
  "verify_players lib t idx ps acc = Inr x \<Longrightarrow>
     \<forall>p\<in>set ps. length (sp_share p) = 32 \<and> length (sp_public_share p) = 33
       \<and> c_generator_mul lib (sp_share p) = Some (sp_public_share p) \<and> verify_aux lib p = Inr ()"
  by (induction ps arbitrary: idx acc) (auto simp: ok_simps verify_share_def)

lemma verify_snapshot_facts:
  assumes "verify_snapshot lib s = Inr ()"
  shows "length (s_public_key s) = 33" "length (s_seed s) = 32" "unat (s_n s) = length (s_players s)"
    "2 \<le> s_t s" "unat (s_t s) \<le> length (s_players s)" "2 \<le> length (s_players s)"
    "\<forall>p\<in>set (s_players s). length (sp_share p) = 32 \<and> length (sp_public_share p) = 33
       \<and> c_generator_mul lib (sp_share p) = Some (sp_public_share p) \<and> verify_aux lib p = Inr ()"
  using assms verify_players_lengths unfolding verify_snapshot_def ok_simps by blast+

text \<open>The same snapshot with another algorithm number and other player ids.\<close>

definition relabel :: "u32 \<Rightarrow> (snapshot_player \<Rightarrow> u64) \<Rightarrow> snapshot \<Rightarrow> snapshot" where
  "relabel a f s = s\<lparr>s_algorithm := a, s_players := map (\<lambda>p. p\<lparr>sp_id := f p\<rparr>) (s_players s)\<rparr>"

lemma verify_share_relabel:
  "verify_share lib d (p\<lparr>sp_id := i\<rparr>) acc = Inr r \<longleftrightarrow> verify_share lib d p acc = Inr r"
  by (simp add: verify_share_def ok_simps)

lemma verify_aux_relabel: "verify_aux lib (p\<lparr>sp_id := i\<rparr>) = Inr u \<longleftrightarrow> verify_aux lib p = Inr u"
  by (simp add: verify_aux_def ok_simps)

lemma verify_players_relabel:
  "verify_players lib t idx (map (\<lambda>p. p\<lparr>sp_id := f p\<rparr>) ps) acc = Inr x \<longleftrightarrow> verify_players lib t idx ps acc = Inr x"
  by (induction ps arbitrary: idx acc) (simp_all add: ok_simps verify_share_relabel verify_aux_relabel)

text \<open>C34: whether a snapshot verifies depends neither on its algorithm number nor on its player ids:
  a snapshot that verifies still does so with any other algorithm and with any other ids, duplicates
  included.\<close>

theorem verify_snapshot_ignores_ids_and_algorithm:
  "verify_snapshot lib (relabel a f s) = Inr () \<longleftrightarrow> verify_snapshot lib s = Inr ()"
  by (simp add: verify_snapshot_def ok_simps relabel_def verify_players_relabel)

section \<open>What installing a snapshot does\<close>

lemma install_infos_result:
  assumes "install_infos lib ps infos = Inr infos'" "om_ok infos" "distinct (map sp_id ps)"
  shows "om_ok infos' \<and> (\<forall>k. k \<notin> sp_id ` set ps \<longrightarrow> om_find infos' k = om_find infos k)
    \<and> (\<forall>p\<in>set ps. \<exists>ppub rpub. c_pp_deserialize lib (sized (sp_paillier_pub p)) = Some ppub
         \<and> c_rp_deserialize lib (sized (sp_rp_pub p)) = Some rpub
         \<and> om_find infos' (sp_id p) = Some \<lparr>pi_public_share = take 33 (sp_public_share p),
              pi_paillier = Some ppub, pi_ring_pedersen = Some rpub\<rparr>)"
  using assms
proof (induction ps arbitrary: infos)
  case (Cons p ps)
  from Cons.prems obtain ppub rpub where
    d: "c_pp_deserialize lib (sized (sp_paillier_pub p)) = Some ppub" "c_rp_deserialize lib (sized (sp_rp_pub p)) = Some rpub"
    and rest: "install_infos lib ps (om_set (sp_id p) \<lparr>pi_public_share = take 33 (sp_public_share p),
                pi_paillier = Some ppub, pi_ring_pedersen = Some rpub\<rparr> infos) = Inr infos'"
    by (auto simp: ok_simps mem_read_def split: if_splits)
  from Cons.IH [OF rest] Cons.prems d show ?case
    by (auto simp: store_simps)
qed simp

lemma install_keys_result:
  assumes "install_keys lib key_id alg md ps stores = (Inr (), stores')" "om_ok stores" "distinct (map sp_id ps)"
  shows "om_ok stores' \<and> (\<forall>k. k \<notin> sp_id ` set ps \<longrightarrow> om_find stores' k = om_find stores k)
    \<and> (\<forall>p\<in>set ps. \<exists>ks ppriv rpriv. c_ps_deserialize lib (sized (sp_paillier_priv p)) = Some ppriv
         \<and> c_rs_deserialize lib (sized (sp_rp_priv p)) = Some rpriv
         \<and> om_find stores (sp_id p) = Some ks
         \<and> om_find stores' (sp_id p) = Some (preload_aux key_id \<lparr>ak_paillier = Some ppriv, ak_ring_pedersen = Some rpriv\<rparr>
             (preload_key key_id alg (take 32 (sp_share p)) md ks)))"
  using assms
proof (induction ps arbitrary: stores)
  case (Cons p ps)
  let ?upd = "\<lambda>ks ppriv rpriv. om_set (sp_id p) (preload_aux key_id
       \<lparr>ak_paillier = Some ppriv, ak_ring_pedersen = Some rpriv\<rparr>
       (preload_key key_id alg (take 32 (sp_share p)) md ks))
       (om_set (sp_id p) (preload_key key_id alg (take 32 (sp_share p)) md ks) stores)"
  from Cons.prems(1) obtain ks ppriv rpriv where
    d: "om_find stores (sp_id p) = Some ks" "c_ps_deserialize lib (sized (sp_paillier_priv p)) = Some ppriv"
       "c_rs_deserialize lib (sized (sp_rp_priv p)) = Some rpriv"
    and rest: "install_keys lib key_id alg md ps (?upd ks ppriv rpriv) = (Inr (), stores')"
    by (auto simp: mem_read_def Let_def split: option.splits if_splits)
  have ok: "om_ok (?upd ks ppriv rpriv)" using Cons.prems(2) by (simp add: store_simps)
  have find: "om_find (?upd ks ppriv rpriv) k = (if k = sp_id p then Some (preload_aux key_id
       \<lparr>ak_paillier = Some ppriv, ak_ring_pedersen = Some rpriv\<rparr>
       (preload_key key_id alg (take 32 (sp_share p)) md ks)) else om_find stores k)" for k
    using Cons.prems(2) by (simp add: store_simps)
  have neq: "sp_id q \<noteq> sp_id p" if "q \<in> set ps" for q
  proof -
    have "sp_id q \<in> set (map sp_id ps)" "sp_id p \<notin> set (map sp_id ps)" using that Cons.prems(3) by simp_all
    then show ?thesis by metis
  qed
  note IH = Cons.IH [OF rest ok]
  show ?case
    using IH Cons.prems(3) d neq unfolding find by (auto simp: find)
qed simp

lemma install_infos_in_bounds:
  "\<forall>p\<in>set ps. length (sp_public_share p) = 33 \<Longrightarrow> install_infos lib ps infos \<noteq> Inl Out_of_bounds"
  by (induction ps arbitrary: infos)
    (auto simp: mem_read_def ebind_def some_or_def split: option.splits sum.splits)

lemma install_keys_in_bounds:
  "\<forall>p\<in>set ps. length (sp_share p) = 32 \<Longrightarrow> fst (install_keys lib key_id alg md ps stores) \<noteq> Inl Out_of_bounds"
  by (induction ps arbitrary: stores) (auto simp: mem_read_def Let_def split: option.splits)

lemma install_snapshot_InrE:
  assumes "install_snapshot lib s key_id stores = (Inr (), stores')"
  obtains infos where "33 \<le> length (s_public_key s)" "32 \<le> length (s_seed s)"
    "install_infos lib (s_players s) [] = Inr infos"
    "install_keys lib key_id (s_algorithm s)
       \<lparr>km_public_key = take 33 (s_public_key s), km_algorithm = s_algorithm s, km_t = s_t s, km_n = s_n s,
        km_flags = 0, km_ttl = 0, km_seed = take 32 (s_seed s), km_players_info = infos\<rparr>
       (s_players s) stores = (Inr (), stores')"
  using assms by (auto simp: install_snapshot_def mem_read_def split: option.splits sum.splits if_splits)

text \<open>
  What an installed player is: its store answers with its share, the shared metadata and private
  auxiliary keys that project to the snapshot's public ones, and the metadata lists its public data.
\<close>

definition installed_player ::
  "('pp, 'ps, 'rp, 'rs) setup_lib \<Rightarrow> string \<Rightarrow> u32 \<Rightarrow> ('pp, 'rp) cmp_key_metadata \<Rightarrow> snapshot_player
   \<Rightarrow> ('pp, 'ps, 'rp, 'rs) det_key_persistency \<Rightarrow> bool" where
  "installed_player lib key_id alg md p ks \<longleftrightarrow>
     load_key ks key_id = Inr (alg, sp_share p) \<and> load_key_metadata ks key_id = Inr md
     \<and> (\<exists>ppriv rpriv. load_auxiliary_keys ks key_id = Inr \<lparr>ak_paillier = Some ppriv, ak_ring_pedersen = Some rpriv\<rparr>
          \<and> ser_paillier_pub lib (c_ps_public lib ppriv) = Some (sp_paillier_pub p)
          \<and> ser_rp_pub lib (c_rs_public lib rpriv) = Some (sp_rp_pub p))
     \<and> (\<exists>info. om_find (km_players_info md) (sp_id p) = Some info \<and> pi_public_share info = sp_public_share p
          \<and> pi_paillier info = c_pp_deserialize lib (sized (sp_paillier_pub p))
          \<and> pi_ring_pedersen info = c_rp_deserialize lib (sized (sp_rp_pub p)))"

lemma install_snapshot_in_bounds:
  assumes "verify_snapshot lib s = Inr ()"
  shows "fst (install_snapshot lib s key_id stores) \<noteq> Inl Out_of_bounds"
proof -
  note v = verify_snapshot_facts [OF assms]
  have "install_infos lib (s_players s) [] \<noteq> Inl Out_of_bounds"
    by (rule install_infos_in_bounds) (use v(7) in auto)
  moreover have "fst (install_keys lib key_id alg md (s_players s) stores) \<noteq> Inl Out_of_bounds" for alg md
    by (rule install_keys_in_bounds) (use v(7) in auto)
  ultimately show ?thesis
    using v(1,2) by (auto simp: install_snapshot_def mem_read_def split: sum.splits)
qed

lemma installed_playerI:
  assumes "verify_snapshot lib s = Inr ()" and p: "p \<in> set (s_players s)"
    and "c_ps_deserialize lib (sized (sp_paillier_priv p)) = Some ppriv"
    and "c_rs_deserialize lib (sized (sp_rp_priv p)) = Some rpriv"
    and "om_ok ks"
    and "om_find (km_players_info md) (sp_id p) = Some info" "pi_public_share info = take 33 (sp_public_share p)"
    and "pi_paillier info = c_pp_deserialize lib (sized (sp_paillier_pub p))"
    and "pi_ring_pedersen info = c_rp_deserialize lib (sized (sp_rp_pub p))"
  shows "installed_player lib key_id alg md p
    (preload_aux key_id \<lparr>ak_paillier = Some ppriv, ak_ring_pedersen = Some rpriv\<rparr>
       (preload_key key_id alg (take 32 (sp_share p)) md ks))"
proof -
  note v = verify_snapshot_facts [OF assms(1)]
  have "verify_aux lib p = Inr ()" "length (sp_share p) = 32" "length (sp_public_share p) = 33"
    using v(7) p by auto
  then show ?thesis
    using assms(3-) by (auto simp: installed_player_def key_store_laws verify_aux_def ok_simps)
qed


definition toy_fixture :: snapshot where
  "toy_fixture =
     (let pl = (\<lambda>i x. \<lparr>sp_id = i, sp_share = replicate 32 x, sp_public_share = pad 33 (2 # replicate 32 x),
            sp_paillier_pub = be_bytes 8 i, sp_paillier_priv = be_bytes 8 i,
            sp_rp_pub = be_bytes 8 i, sp_rp_priv = be_bytes 8 i\<rparr>)
      in \<lparr>s_algorithm = 0, s_public_key = pad 33 (2 # replicate 32 3), s_seed = replicate 32 0, s_t = 2, s_n = 3,
          s_players = [pl 1 1, pl 2 2, pl 3 5]\<rparr>)"

lemma toy_fixture_verifies: "verify_snapshot toy_lib toy_fixture = Inr ()"
  by (simp add: verify_snapshot_def toy_fixture_def toy_lib_def verify_share_def verify_aux_def add_share_def
      ser_paillier_pub_def ser_rp_pub_def sized_def pad_def Let_def)

abbreviation toy_stores :: "(u64, (nat, nat, nat, nat) det_key_persistency) omap" where
  "toy_stores \<equiv> [(1, []), (2, []), (3, [])]"

lemma toy_installs: "fst (install_snapshot toy_lib toy_fixture ''k'' toy_stores) = Inr ()"
  by (simp add: install_snapshot_def mem_read_def toy_fixture_def toy_lib_def om_find_def Let_def)


end
