(* ===== verification/Service.thy ===== *)
theory Service
  imports Fixtures Mutators Oracles
begin

text \<open>
  The world a signing ceremony runs in. The library's online signing service is not part of the
  repository: its five operations are the fields of a \<open>cmp_service\<close> record, functions of the
  \<open>player_env\<close> the harness hands to a service object (its platform, key store and transaction store),
  of the service's own state and of the process-wide generator. They may change all of these, throw
  any exception, or return a result. \<open>run_round\<close> is the loop over the signers that every round of
  \<^verbatim>\<open>driver.cpp\<close> and \<^verbatim>\<open>dual_session.cpp\<close> executes.
\<close>

section \<open>Exceptions\<close>

datatype exn =
    Cosigner_exception string | Out_of_range string | Bad_alloc string | Std_exception string | Unknown_exn

record call_outcome =
  co_threw :: bool
  co_fatal :: bool
  co_type :: string
  co_what :: string

definition call_outcome_default :: call_outcome where
  "call_outcome_default = \<lparr>co_threw = False, co_fatal = False, co_type = [], co_what = []\<rparr>"

section \<open>The library's signing service\<close>

record signing_block_data =
  bl_data :: bytes
  bl_path :: "u32 list"

record signing_data =
  si_chaincode :: bytes
  si_blocks :: "signing_block_data list"

record ('l, 'pp, 'ps, 'rp, 'rs) player_env =
  pe_platform :: det_platform
  pe_keys :: "('pp, 'ps, 'rp, 'rs) det_key_persistency"
  pe_store :: det_signing_persistency
  pe_service :: 'l
  pe_rng :: drbg_state

type_synonym ('l, 'pp, 'ps, 'rp, 'rs, 'o) service_call =
  "('l, 'pp, 'ps, 'rp, 'rs) player_env \<Rightarrow> (exn + 'o) \<times> ('l, 'pp, 'ps, 'rp, 'rs) player_env"

record ('l, 'pp, 'ps, 'rp, 'rs) cmp_service =
  sv_new :: "u64 \<Rightarrow> 'l"
  sv_MPC_PROTOCOL_VERSION :: u32
  sv_MAX_BLOCKS_TO_SIGN :: nat
  sv_start_signing :: "string \<Rightarrow> string \<Rightarrow> u32 \<Rightarrow> signing_data \<Rightarrow> string \<Rightarrow> string list \<Rightarrow> u64 list
     \<Rightarrow> ('l, 'pp, 'ps, 'rp, 'rs, cmp_mta_request list) service_call"
  sv_mta_response :: "string \<Rightarrow> r1_wire \<Rightarrow> u32 \<Rightarrow> ('l, 'pp, 'ps, 'rp, 'rs, cmp_mta_responses) service_call"
  sv_mta_verify :: "string \<Rightarrow> r2_wire \<Rightarrow> ('l, 'pp, 'ps, 'rp, 'rs, cmp_mta_deltas list) service_call"
  sv_get_si :: "string \<Rightarrow> r3_wire \<Rightarrow> ('l, 'pp, 'ps, 'rp, 'rs, bytes list) service_call"
  sv_get_cmp_signature :: "string \<Rightarrow> r4_wire \<Rightarrow> ('l, 'pp, 'ps, 'rp, 'rs, recoverable_signature list) service_call"

section \<open>Players and the world\<close>

record 'l player_ctx =
  pc_platform :: det_platform
  pc_signing_store :: det_signing_persistency
  pc_service :: 'l

definition player_ctx_new :: "('l, 'pp, 'ps, 'rp, 'rs) cmp_service \<Rightarrow> u64 \<Rightarrow> 'l player_ctx" where
  "player_ctx_new sv pid = \<lparr>pc_platform = \<lparr>pf_id = pid, pf_throw_on_start = False\<rparr>,
     pc_signing_store = signing_store_init, pc_service = sv_new sv pid\<rparr>"

text \<open>
  The key stores belong to the session, the contexts to one run; a context holds a reference to the
  key store of its player.
\<close>

record ('l, 'pp, 'ps, 'rp, 'rs) world =
  w_key_stores :: "(u64, ('pp, 'ps, 'rp, 'rs) det_key_persistency) omap"
  w_players :: "(u64, 'l player_ctx) omap"
  w_rng :: drbg_state

text \<open>\<^verbatim>\<open>_key_stores.at(id)\<close>; every fixture player has a store (\<open>session_stores\<close> in the driver).\<close>

definition key_store_at :: "(u64, ('pp, 'ps, 'rp, 'rs) det_key_persistency) omap \<Rightarrow> u64
    \<Rightarrow> ('pp, 'ps, 'rp, 'rs) det_key_persistency" where
  "key_store_at stores pid = (case om_find stores pid of None \<Rightarrow> [] | Some ks \<Rightarrow> ks)"

text \<open>\<^verbatim>\<open>players.emplace(id, ...)\<close> for every fixture player.\<close>

definition make_players :: "('l, 'pp, 'ps, 'rp, 'rs) cmp_service \<Rightarrow> u64 list \<Rightarrow> (u64, 'l player_ctx) omap" where
  "make_players sv ids = foldl (\<lambda>m pid. om_emplace pid (player_ctx_new sv pid) m) [] ids"

definition env_of :: "('l, 'pp, 'ps, 'rp, 'rs) world \<Rightarrow> u64 \<Rightarrow> 'l player_ctx \<Rightarrow> ('l, 'pp, 'ps, 'rp, 'rs) player_env" where
  "env_of w pid ctx = \<lparr>pe_platform = pc_platform ctx, pe_keys = key_store_at (w_key_stores w) pid,
     pe_store = pc_signing_store ctx, pe_service = pc_service ctx, pe_rng = w_rng w\<rparr>"

definition put_env :: "u64 \<Rightarrow> ('l, 'pp, 'ps, 'rp, 'rs) player_env \<Rightarrow> ('l, 'pp, 'ps, 'rp, 'rs) world
    \<Rightarrow> ('l, 'pp, 'ps, 'rp, 'rs) world" where
  "put_env pid e w = w\<lparr>w_key_stores := om_set pid (pe_keys e) (w_key_stores w),
     w_players := om_set pid \<lparr>pc_platform = pe_platform e, pc_signing_store = pe_store e, pc_service = pe_service e\<rparr>
       (w_players w),
     w_rng := pe_rng e\<rparr>"

text \<open>\<^verbatim>\<open>players.at(id)->service.f(...)\<close>; \<^verbatim>\<open>at\<close> throws when there is no such player.\<close>

definition call_player :: "u64 \<Rightarrow> ('l, 'pp, 'ps, 'rp, 'rs, 'o) service_call \<Rightarrow> ('l, 'pp, 'ps, 'rp, 'rs) world
    \<Rightarrow> (exn + 'o) \<times> ('l, 'pp, 'ps, 'rp, 'rs) world" where
  "call_player pid f w =
     (case om_find (w_players w) pid of
        None \<Rightarrow> (Inl (Out_of_range ''map::at''), w)
      | Some ctx \<Rightarrow> let (r, e) = f (env_of w pid ctx) in (r, put_env pid e w))"

definition record_present :: "('l, 'pp, 'ps, 'rp, 'rs) world \<Rightarrow> u64 \<Rightarrow> string \<Rightarrow> bool" where
  "record_present w pid txid =
     (case om_find (w_players w) pid of None \<Rightarrow> False | Some ctx \<Rightarrow> has (pc_signing_store ctx) txid)"

section \<open>A round\<close>

text \<open>
  The loop of a round over its signers: the player's view of the incoming messages (with the number
  of mutations it applied), the call, and the player's output or the player that threw.
\<close>

fun run_round ::
  "(u64 \<Rightarrow> nat \<times> 'i) \<Rightarrow> (u64 \<Rightarrow> 'i \<Rightarrow> 'w \<Rightarrow> (exn + 'o) \<times> 'w) \<Rightarrow> u64 list \<Rightarrow> (u64, 'o) omap \<Rightarrow> nat \<Rightarrow> 'w
   \<Rightarrow> ((u64 \<times> exn) + (u64, 'o) omap) \<times> nat \<times> 'w" where
  "run_round view call [] outs k w = (Inr outs, k, w)"
| "run_round view call (pid # ids) outs k w =
     (let (d, inp) = view pid;
          (r, w') = call pid inp w
      in case r of
           Inl e \<Rightarrow> (Inl (pid, e), k + d, w')
         | Inr out \<Rightarrow> run_round view call ids (om_set pid out outs) (k + d) w')"

section \<open>What a round does\<close>

lemma run_round_Inl [simp]:
  "view pid = (d, inp) \<Longrightarrow> call pid inp w = (Inl e, w') \<Longrightarrow>
     run_round view call (pid # ids) outs k w = (Inl (pid, e), k + d, w')"
  by simp

lemma run_round_Inr [simp]:
  "view pid = (d, inp) \<Longrightarrow> call pid inp w = (Inr out, w') \<Longrightarrow>
     run_round view call (pid # ids) outs k w = run_round view call ids (om_set pid out outs) (k + d) w'"
  by simp

declare run_round.simps(2) [simp del]

lemma run_round_ConsE:
  assumes "run_round view call (pid # ids) outs k w = (r, k', w')"
  obtains (throws) d inp e where "view pid = (d, inp)" "call pid inp w = (Inl e, w')" "r = Inl (pid, e)" "k' = k + d"
  | (goes_on) d inp out w1 where "view pid = (d, inp)" "call pid inp w = (Inr out, w1)"
      "run_round view call ids (om_set pid out outs) (k + d) w1 = (r, k', w')"
proof -
  obtain d inp where v: "view pid = (d, inp)" by fastforce
  obtain q w1 where c: "call pid inp w = (q, w1)" by fastforce
  show ?thesis
  proof (cases q)
    case (Inl e)
    then show ?thesis using v c assms by (intro throws [of d inp e]) auto
  next
    case (Inr out)
    then show ?thesis using v c assms by (intro goes_on [of d inp out w1]) auto
  qed
qed

lemma run_round_count:
  "run_round view call ids outs k w = (r, k', w') \<Longrightarrow> k \<le> k' \<and> k' \<le> k + sum_list (map (fst \<circ> view) ids)"
proof (induction ids arbitrary: outs k w)
  case (Cons pid ids)
  from Cons.prems show ?case
    by (cases rule: run_round_ConsE) (auto dest!: Cons.IH)
qed simp

text \<open>A run through all signers delivers to each of them exactly once.\<close>

lemma run_round_total:
  "run_round view call ids outs k w = (Inr r, k', w') \<Longrightarrow> k' = k + sum_list (map (fst \<circ> view) ids)"
proof (induction ids arbitrary: outs k w)
  case (Cons pid ids)
  from Cons.prems show ?case
    by (cases rule: run_round_ConsE) (auto dest!: Cons.IH)
qed simp

lemma run_round_outputs:
  assumes "run_round view call ids outs k w = (Inr r, k', w')" "om_ok outs"
  shows "om_ok r \<and> (\<forall>pid. om_find r pid \<noteq> None \<longleftrightarrow> pid \<in> set ids \<or> om_find outs pid \<noteq> None)"
  using assms
proof (induction ids arbitrary: outs k w)
  case (Cons pid ids)
  from Cons.prems(1) show ?case
  proof (cases rule: run_round_ConsE)
    case (goes_on d inp out w1)
    from Cons.IH [OF goes_on(3)] Cons.prems(2) show ?thesis by (auto simp: store_simps)
  qed auto
qed auto

lemma run_round_thrower:
  "run_round view call ids outs k w = (Inl (pid, e), k', w') \<Longrightarrow> pid \<in> set ids"
proof (induction ids arbitrary: outs k w)
  case (Cons p ids)
  from Cons.prems show ?case
    by (cases rule: run_round_ConsE) (auto dest: Cons.IH)
qed simp

text \<open>A property of the world that every call keeps is kept by the round.\<close>

lemma run_round_invariant:
  assumes "\<And>pid inp w r w'. pid \<in> set ids \<Longrightarrow> I w \<Longrightarrow> call pid inp w = (r, w') \<Longrightarrow> I w'"
    and "I w" "run_round view call ids outs k w = (r, k', w')"
  shows "I w'"
  using assms
proof (induction ids arbitrary: outs k w)
  case (Cons pid ids)
  from Cons.prems(3) show ?case
  proof (cases rule: run_round_ConsE)
    case (throws d inp e)
    then show ?thesis using Cons.prems(1) [of pid w inp "Inl e" w'] Cons.prems(2) by simp
  next
    case (goes_on d inp out w1)
    have "I w1" using Cons.prems(1) [of pid w inp "Inr out" w1] Cons.prems(2) goes_on by simp
    then show ?thesis
      using Cons.IH [OF _ _ goes_on(3)] Cons.prems(1) by (metis list.set_intros(2))
  qed
qed simp

lemma run_round_good:
  assumes "run_round view call ids outs k w = (Inr r, k', w')"
    and "\<And>pid inp w out w'. call pid inp w = (Inr out, w') \<Longrightarrow> P out" and "map_good P outs"
  shows "map_good P r"
  using assms(1,3)
proof (induction ids arbitrary: outs k w)
  case (Cons pid ids)
  from Cons.prems(1) show ?case
  proof (cases rule: run_round_ConsE)
    case (goes_on d inp out w1)
    have "map_good P (om_set pid out outs)"
      using Cons.prems(2) assms(2) [OF goes_on(2)] by (auto simp: map_good_def store_simps)
    from Cons.IH [OF goes_on(3) this] show ?thesis .
  qed simp
qed simp

text \<open>A round in which no view counted a mutation is the round on the unaltered messages.\<close>

lemma run_round_unaltered:
  assumes "run_round view call ids outs k w = (r, k, w')"
    and "\<And>pid. fst (view pid) = 0 \<Longrightarrow> view pid = (0, x)"
  shows "run_round (\<lambda>_. (0, x)) call ids outs k w = (r, k, w')"
  using assms(1)
proof (induction ids arbitrary: outs w)
  case (Cons pid ids)
  from Cons.prems show ?case
  proof (cases rule: run_round_ConsE)
    case (throws d inp e)
    with assms(2) [of pid] show ?thesis by auto
  next
    case (goes_on d inp out w1)
    from run_round_count [OF goes_on(3)] have "d = 0" by simp
    with goes_on assms(2) [of pid] Cons.IH [of "om_set pid out outs" w1] show ?thesis by simp
  qed
qed simp

text \<open>
  The results of the library have the types of its header: fixed-size arrays have their size, maps
  are maps.
\<close>

definition well_typed_service :: "('l, 'pp, 'ps, 'rp, 'rs) cmp_service \<Rightarrow> bool" where
  "well_typed_service sv \<longleftrightarrow>
     (\<forall>a b c d f g h e out e'. sv_start_signing sv a b c d f g h e = (Inr out, e') \<longrightarrow> list_all good_request out)
     \<and> (\<forall>a b c e out e'. sv_mta_response sv a b c e = (Inr out, e') \<longrightarrow> good_responses out)
     \<and> (\<forall>a b e out e'. sv_mta_verify sv a b e = (Inr out, e') \<longrightarrow> list_all good_deltas out)
     \<and> (\<forall>a b e out e'. sv_get_si sv a b e = (Inr out, e') \<longrightarrow> list_all good_si out)"

lemma well_typedD:
  assumes "well_typed_service sv"
  shows "sv_start_signing sv a b c d f g h e = (Inr x1, e') \<Longrightarrow> list_all good_request x1"
    "sv_mta_response sv a q c e = (Inr x2, e') \<Longrightarrow> good_responses x2"
    "sv_mta_verify sv a y2 e = (Inr x3, e') \<Longrightarrow> list_all good_deltas x3"
    "sv_get_si sv a y3 e = (Inr x4, e') \<Longrightarrow> list_all good_si x4"
proof -
  note wt = assms [unfolded well_typed_service_def]
  show "sv_start_signing sv a b c d f g h e = (Inr x1, e') \<Longrightarrow> list_all good_request x1"
    by (rule wt [THEN conjunct1, rule_format])
  show "sv_mta_response sv a q c e = (Inr x2, e') \<Longrightarrow> good_responses x2"
    by (rule wt [THEN conjunct2, THEN conjunct1, rule_format])
  show "sv_mta_verify sv a y2 e = (Inr x3, e') \<Longrightarrow> list_all good_deltas x3"
    by (rule wt [THEN conjunct2, THEN conjunct2, THEN conjunct1, rule_format])
  show "sv_get_si sv a y3 e = (Inr x4, e') \<Longrightarrow> list_all good_si x4"
    by (rule wt [THEN conjunct2, THEN conjunct2, THEN conjunct2, rule_format])
qed

lemma call_player_result:
  assumes "call_player pid f w = (Inr out, w')" and "\<And>e out e'. f e = (Inr out, e') \<Longrightarrow> P out"
  shows "P out"
  using assms by (auto simp: call_player_def split: option.splits prod.splits)

lemma map_good_Nil [simp]: "map_good P []"
  by (simp add: map_good_def)

end
