(* ===== verification/Driver.thy ===== *)
theory Driver
  imports Service Snapshot_Setup
begin

text \<open>
  The single-session driver, \<^verbatim>\<open>src/harness/cmp_ecdsa_online/src/driver.cpp\<close>: the session that holds
  the installed key stores, the five rounds of one signing run with the mutations applied to what
  honest players receive, the classification of exceptions, the oracles that judge a produced
  signature, and the probe that the generator reaches the library. A run returns \<^term>\<open>None\<close> in place
  of its result where the source would read past the end of the snapshot's public key.
\<close>

section \<open>Verdicts, configurations, results\<close>

datatype verdict =
    CLEAN_SIGN | CLEAN_REJECT | INVALID_SIGNATURE | STATE_CORRUPTION | CRASH | TIMEOUT | HARNESS_FAULT

fun verdict_name :: "verdict \<Rightarrow> string" where
  "verdict_name CLEAN_SIGN = ''CLEAN-SIGN''"
| "verdict_name CLEAN_REJECT = ''CLEAN-REJECT''"
| "verdict_name INVALID_SIGNATURE = ''INVALID-SIGNATURE''"
| "verdict_name STATE_CORRUPTION = ''STATE-CORRUPTION''"
| "verdict_name CRASH = ''CRASH''"
| "verdict_name TIMEOUT = ''TIMEOUT''"
| "verdict_name HARNESS_FAULT = ''HARNESS-FAULT''"

text \<open>\<^verbatim>\<open>std::set\<close> of the elements of a range.\<close>

definition std_set :: "'a::linorder list \<Rightarrow> 'a list" where
  "std_set xs = sort (remdups xs)"

record run_config =
  rc_seed :: u64
  rc_key_id :: string
  rc_txid :: string
  rc_metadata_json :: string
  rc_blocks :: nat
  rc_path :: "u32 list"
  rc_malicious_ids :: "u64 list"
  rc_signers_ids :: "u64 list"
  rc_mutations :: "mutation list"
  rc_timeout_ms :: u64

definition run_config_default :: run_config where
  "run_config_default = \<lparr>rc_seed = 1, rc_key_id = ''opus-key'', rc_txid = ''opus-tx-0'', rc_metadata_json = [],
     rc_blocks = 1, rc_path = [44, 0, 0, 0, 0], rc_malicious_ids = [], rc_signers_ids = [], rc_mutations = [],
     rc_timeout_ms = 0\<rparr>"

definition honest_only :: "run_config \<Rightarrow> bool" where
  "honest_only cfg \<longleftrightarrow> rc_malicious_ids cfg = []"

record run_result =
  rr_v :: verdict
  rr_failed_round :: int
  rr_failed_player :: u64
  rr_exception_type :: string
  rr_detail :: string
  rr_elapsed_ms :: u64
  rr_sigs :: "recoverable_signature list"
  rr_signature_produced :: bool
  rr_key_digest_before :: string
  rr_key_digest_after :: string
  rr_key_store_unchanged :: bool
  rr_sig_state_consistent :: bool
  rr_mutations_applied :: nat

definition run_result_default :: run_result where
  "run_result_default = \<lparr>rr_v = HARNESS_FAULT, rr_failed_round = 0, rr_failed_player = 0, rr_exception_type = [],
     rr_detail = [], rr_elapsed_ms = 0, rr_sigs = [], rr_signature_produced = False, rr_key_digest_before = [],
     rr_key_digest_after = [], rr_key_store_unchanged = True, rr_sig_state_consistent = True,
     rr_mutations_applied = 0\<rparr>"

definition summary :: "run_result \<Rightarrow> string" where
  "summary r = verdict_name (rr_v r)
     @ (if rr_failed_round r \<noteq> 0
        then '' round='' @ to_string_int (rr_failed_round r) @ '' player='' @ to_string_u64 (rr_failed_player r) else [])
     @ (if rr_exception_type r \<noteq> [] then '' exc='' @ rr_exception_type r else [])
     @ '' applied='' @ dec_of_nat (rr_mutations_applied r) @ '' ms='' @ to_string_u64 (rr_elapsed_ms r)
     @ (if rr_detail r \<noteq> [] then '' :: '' @ rr_detail r else [])"

section \<open>Calls, messages, the session\<close>

definition guarded :: "exn + 'a \<Rightarrow> call_outcome" where
  "guarded r =
     (let o0 = call_outcome_default in
      case r of
        Inr _ \<Rightarrow> o0
      | Inl (Cosigner_exception w) \<Rightarrow> o0\<lparr>co_threw := True, co_type := ''cosigner_exception'', co_what := w\<rparr>
      | Inl (Out_of_range w) \<Rightarrow> o0\<lparr>co_threw := True, co_type := ''std::out_of_range'', co_what := w\<rparr>
      | Inl (Bad_alloc w) \<Rightarrow> o0\<lparr>co_threw := True, co_type := ''std::bad_alloc'', co_what := w\<rparr>
      | Inl (Std_exception w) \<Rightarrow> o0\<lparr>co_threw := True, co_fatal := True, co_type := ''std::exception'', co_what := w\<rparr>
      | Inl Unknown_exn \<Rightarrow> o0\<lparr>co_threw := True, co_fatal := True, co_type := ''unknown'',
          co_what := ''non-standard exception''\<rparr>)"

definition block_message :: "nat \<Rightarrow> bytes" where
  "block_message index = map (\<lambda>i. of_nat (0xA0 + index + i)) [0..<32]"

record ('pp, 'ps, 'rp, 'rs) session =
  se_ok :: bool
  se_key_id :: string
  se_snap :: snapshot
  se_ids :: "u64 list"
  se_key_stores :: "(u64, ('pp, 'ps, 'rp, 'rs) det_key_persistency) omap"

definition session_new :: "('pp, 'ps, 'rp, 'rs) setup_lib \<Rightarrow> snapshot \<Rightarrow> string
    \<Rightarrow> (fault + unit) \<times> ('pp, 'ps, 'rp, 'rs) session" where
  "session_new lib snap key_id =
     (let ids = player_ids snap;
          stores = foldl (\<lambda>m pid. om_emplace pid [] m) [] ids;
          (r, stores') = install_snapshot lib snap key_id stores
      in (r, \<lparr>se_ok = (r = Inr ()), se_key_id = key_id, se_snap = snap, se_ids = ids, se_key_stores = stores'\<rparr>))"

section \<open>The structural guards\<close>

definition run_signers :: "u64 list \<Rightarrow> run_config \<Rightarrow> u64 list" where
  "run_signers ids cfg = (if rc_signers_ids cfg = [] then ids else rc_signers_ids cfg)"

definition run_honest :: "u64 list \<Rightarrow> run_config \<Rightarrow> u64 list" where
  "run_honest ids cfg = filter (\<lambda>i. i \<notin> set (rc_malicious_ids cfg)) (run_signers ids cfg)"

definition run_guards :: "nat \<Rightarrow> u64 list \<Rightarrow> byte \<Rightarrow> run_config \<Rightarrow> string option" where
  "run_guards max_blocks ids t cfg =
     (let signers = run_signers ids cfg; honest = run_honest ids cfg in
      if signers = [] then Some ''refused: no signers configured''
      else if length (std_set signers) \<noteq> length signers then Some ''duplicate signer id in signers_ids''
      else case List.find (\<lambda>sid. sid \<notin> set ids) signers of
        Some sid \<Rightarrow> Some (''signer id '' @ to_string_u64 sid @ '' is not a fixture player'')
      | None \<Rightarrow>
          if length signers \<noteq> unat t
          then Some (''signer count '' @ dec_of_nat (length signers) @ '' != snapshot threshold ''
                     @ dec_of_nat (unat t) @ '' (start_signing would reject)'')
          else if honest = [] then Some ''refused: every player is malicious (out of scope by SECURITY-MODEL 1.1)''
          else (case List.find (\<lambda>m. m \<notin> set ids) (rc_malicious_ids cfg) of
                  Some m \<Rightarrow> Some (''malicious id '' @ to_string_u64 m @ '' is not a player'')
                | None \<Rightarrow>
                    if rc_blocks cfg = 0 \<or> max_blocks < rc_blocks cfg
                    then Some ''block count out of the caller-contract range''
                    else None))"

section \<open>The rounds\<close>

definition make_request :: "run_config \<Rightarrow> signing_data" where
  "make_request cfg = \<lparr>si_chaincode = replicate 32 0,
     si_blocks = map (\<lambda>i. \<lparr>bl_data = block_message i, bl_path = rc_path cfg\<rparr>) [0..<rc_blocks cfg]\<rparr>"

definition find_mut :: "run_config \<Rightarrow> int \<Rightarrow> mutation option" where
  "find_mut cfg round = List.find (\<lambda>m. m_round m = round \<and> enabled m) (rc_mutations cfg)"

definition view :: "run_config \<Rightarrow> int \<Rightarrow> (mutation \<Rightarrow> 'w \<Rightarrow> u64 \<Rightarrow> bool \<times> 'w) \<Rightarrow> 'w \<Rightarrow> u64 \<Rightarrow> nat \<times> 'w" where
  "view cfg round app wire viewer =
     (if viewer \<in> set (rc_malicious_ids cfg) then (0, wire)
      else case find_mut cfg round of
        None \<Rightarrow> (0, wire)
      | Some m \<Rightarrow> let (applied, wire') = app m wire viewer in (if applied then 1 else 0, wire'))"

definition view_r1 :: "run_config \<Rightarrow> r1_wire \<Rightarrow> u64 \<Rightarrow> nat \<times> r1_wire" where
  "view_r1 cfg = view cfg 1 apply_r1"

definition view_r2 :: "run_config \<Rightarrow> r2_wire \<Rightarrow> u64 \<Rightarrow> nat \<times> r2_wire" where
  "view_r2 cfg = view cfg 2 apply_r2"

definition view_r3 :: "run_config \<Rightarrow> r3_wire \<Rightarrow> u64 \<Rightarrow> nat \<times> r3_wire" where
  "view_r3 cfg = view cfg 3 apply_r3"

definition view_r4 :: "u64 list \<Rightarrow> run_config \<Rightarrow> r4_wire \<Rightarrow> u64 \<Rightarrow> nat \<times> r4_wire" where
  "view_r4 ids cfg = view cfg 4 (\<lambda>m sis victim. apply_r4 m sis victim ids (run_signers ids cfg))"

definition round1 :: "('l, 'pp, 'ps, 'rp, 'rs) cmp_service \<Rightarrow> string \<Rightarrow> u64 list \<Rightarrow> run_config
    \<Rightarrow> ('l, 'pp, 'ps, 'rp, 'rs) world \<Rightarrow> ((u64 \<times> exn) + r1_wire) \<times> nat \<times> ('l, 'pp, 'ps, 'rp, 'rs) world" where
  "round1 sv key_id signers cfg w =
     run_round (\<lambda>_. (0, ())) (\<lambda>pid _. call_player pid
       (sv_start_signing sv key_id (rc_txid cfg) 0 (make_request cfg) (rc_metadata_json cfg)
          (std_set (map to_string_u64 signers)) (std_set signers)))
       signers [] 0 w"

definition round2 :: "('l, 'pp, 'ps, 'rp, 'rs) cmp_service \<Rightarrow> u64 list \<Rightarrow> run_config \<Rightarrow> r1_wire \<Rightarrow> nat
    \<Rightarrow> ('l, 'pp, 'ps, 'rp, 'rs) world \<Rightarrow> ((u64 \<times> exn) + r2_wire) \<times> nat \<times> ('l, 'pp, 'ps, 'rp, 'rs) world" where
  "round2 sv signers cfg requests k w =
     run_round (view_r1 cfg requests) (\<lambda>pid inp. call_player pid
       (sv_mta_response sv (rc_txid cfg) inp (sv_MPC_PROTOCOL_VERSION sv)))
       signers [] k w"

definition round3 :: "('l, 'pp, 'ps, 'rp, 'rs) cmp_service \<Rightarrow> u64 list \<Rightarrow> run_config \<Rightarrow> r2_wire \<Rightarrow> nat
    \<Rightarrow> ('l, 'pp, 'ps, 'rp, 'rs) world \<Rightarrow> ((u64 \<times> exn) + r3_wire) \<times> nat \<times> ('l, 'pp, 'ps, 'rp, 'rs) world" where
  "round3 sv signers cfg responses k w =
     run_round (view_r2 cfg responses) (\<lambda>pid inp. call_player pid (sv_mta_verify sv (rc_txid cfg) inp))
       signers [] k w"

definition round4 :: "('l, 'pp, 'ps, 'rp, 'rs) cmp_service \<Rightarrow> u64 list \<Rightarrow> run_config \<Rightarrow> r3_wire \<Rightarrow> nat
    \<Rightarrow> ('l, 'pp, 'ps, 'rp, 'rs) world \<Rightarrow> ((u64 \<times> exn) + r4_wire) \<times> nat \<times> ('l, 'pp, 'ps, 'rp, 'rs) world" where
  "round4 sv signers cfg deltas k w =
     run_round (view_r3 cfg deltas) (\<lambda>pid inp. call_player pid (sv_get_si sv (rc_txid cfg) inp))
       signers [] k w"

definition round5 :: "('l, 'pp, 'ps, 'rp, 'rs) cmp_service \<Rightarrow> u64 list \<Rightarrow> u64 \<Rightarrow> run_config \<Rightarrow> r4_wire \<Rightarrow> nat
    \<Rightarrow> ('l, 'pp, 'ps, 'rp, 'rs) world
    \<Rightarrow> ((u64 \<times> exn) + recoverable_signature list) \<times> nat \<times> ('l, 'pp, 'ps, 'rp, 'rs) world" where
  "round5 sv ids observer cfg sis k w =
     (let (d, inp) = view_r4 ids cfg sis observer;
          (r, w') = call_player observer (sv_get_cmp_signature sv (rc_txid cfg) inp) w
      in (case r of Inl e \<Rightarrow> Inl (observer, e) | Inr sigs \<Rightarrow> Inr sigs, k + d, w'))"

text \<open>The five rounds in sequence: the round, player and exception that ended them, or the signatures.\<close>

definition run_rounds :: "('l, 'pp, 'ps, 'rp, 'rs) cmp_service \<Rightarrow> string \<Rightarrow> u64 list \<Rightarrow> u64 \<Rightarrow> run_config
    \<Rightarrow> ('l, 'pp, 'ps, 'rp, 'rs) world
    \<Rightarrow> ((int \<times> u64 \<times> exn) + recoverable_signature list) \<times> nat \<times> ('l, 'pp, 'ps, 'rp, 'rs) world" where
  "run_rounds sv key_id ids observer cfg w =
     (let signers = run_signers ids cfg in
      case round1 sv key_id signers cfg w of
        (Inl x, k, w) \<Rightarrow> (Inl (1, x), k, w)
      | (Inr requests, k, w) \<Rightarrow>
      (case round2 sv signers cfg requests k w of
        (Inl x, k, w) \<Rightarrow> (Inl (2, x), k, w)
      | (Inr responses, k, w) \<Rightarrow>
      (case round3 sv signers cfg responses k w of
        (Inl x, k, w) \<Rightarrow> (Inl (3, x), k, w)
      | (Inr deltas, k, w) \<Rightarrow>
      (case round4 sv signers cfg deltas k w of
        (Inl x, k, w) \<Rightarrow> (Inl (4, x), k, w)
      | (Inr sis, k, w) \<Rightarrow>
      (case round5 sv ids observer cfg sis k w of
        (Inl x, k, w) \<Rightarrow> (Inl (5, x), k, w)
      | (Inr sigs, k, w) \<Rightarrow> (Inr sigs, k, w))))))"

section \<open>How a run ends\<close>

definition fail :: "verdict \<Rightarrow> int \<Rightarrow> u64 \<Rightarrow> call_outcome \<Rightarrow> string \<Rightarrow> run_result \<Rightarrow> run_result" where
  "fail v round pid out extra res = res\<lparr>rr_v := v, rr_failed_round := round, rr_failed_player := pid,
     rr_exception_type := co_type out,
     rr_detail := (if extra = [] then co_what out else extra @ '' ('' @ co_what out @ '')'')\<rparr>"

definition fail_extra :: "run_config \<Rightarrow> int \<Rightarrow> u64 \<Rightarrow> call_outcome \<Rightarrow> string" where
  "fail_extra cfg round pid out =
     (if round = 1 then (if honest_only cfg then ''honest round 1 must not throw'' else [])
      else if round = 2 \<and> \<not> co_fatal out \<and> pid \<in> set (rc_malicious_ids cfg) then ''attacker self-harm''
      else [])"

definition close_run :: "('pp, 'ps, 'rp, 'rs) setup_lib \<Rightarrow> u64 \<Rightarrow> u64 \<Rightarrow> ('l, 'pp, 'ps, 'rp, 'rs) world
    \<Rightarrow> run_result \<Rightarrow> run_result" where
  "close_run lib elapsed observer w res =
     (let after = key_store_digest (crypto_lib.truncate lib) (key_store_at (w_key_stores w) observer)
      in res\<lparr>rr_elapsed_ms := elapsed, rr_key_digest_after := after,
             rr_key_store_unchanged := (rr_key_digest_before res = after)\<rparr>)"

definition reject_run :: "('pp, 'ps, 'rp, 'rs) setup_lib \<Rightarrow> run_config \<Rightarrow> u64 \<Rightarrow> u64 \<Rightarrow> ('l, 'pp, 'ps, 'rp, 'rs) world
    \<Rightarrow> int \<times> u64 \<times> exn \<Rightarrow> run_result \<Rightarrow> run_result" where
  "reject_run lib cfg elapsed observer w x res =
     (let (round, pid, e) = x;
          out = guarded (Inl e :: exn + unit);
          res1 = fail (if co_fatal out then CRASH else CLEAN_REJECT) round pid out (fail_extra cfg round pid out) res;
          res2 = (if honest_only cfg \<and> \<not> co_fatal out then res1\<lparr>rr_v := HARNESS_FAULT\<rparr> else res1)
      in close_run lib elapsed observer w res2)"

text \<open>The loop over the blocks: undefined, the first objection, or none.\<close>

fun judge_blocks :: "'c algebra_lib \<Rightarrow> snapshot \<Rightarrow> run_config \<Rightarrow> bytes \<Rightarrow> nat
    \<Rightarrow> (recoverable_signature \<times> bytes) list \<Rightarrow> string option option" where
  "judge_blocks al snap cfg cc i [] = Some None"
| "judge_blocks al snap cfg cc i ((sig, msg) # rest) =
     (case oracle_signature_valid al snap msg (rc_path cfg) cc sig (rc_metadata_json cfg = ''positive_r'') of
        None \<Rightarrow> None
      | Some (valid, detail) \<Rightarrow>
          if \<not> valid then Some (Some (''block '' @ dec_of_nat i @ '': '' @ detail))
          else (case oracle_no_canary_forgery al snap (rc_path cfg) cc sig of
                  None \<Rightarrow> None
                | Some (clean, detail) \<Rightarrow>
                    if \<not> clean then Some (Some (''block '' @ dec_of_nat i @ '': '' @ detail))
                    else judge_blocks al snap cfg cc (i + 1) rest))"

definition judge_run :: "'c algebra_lib \<Rightarrow> snapshot \<Rightarrow> run_config \<Rightarrow> u64 \<Rightarrow> ('l, 'pp, 'ps, 'rp, 'rs) world
    \<Rightarrow> run_result \<Rightarrow> run_result option" where
  "judge_run al snap cfg observer w res =
     (if \<not> rr_key_store_unchanged res
      then Some (res\<lparr>rr_v := STATE_CORRUPTION, rr_detail := ''key store digest changed across a run''\<rparr>)
      else if record_present w observer (rc_txid cfg)
      then Some (res\<lparr>rr_v := STATE_CORRUPTION, rr_sig_state_consistent := False,
             rr_detail := ''temporary signing record survived a successful get_cmp_signature''\<rparr>)
      else if length (rr_sigs res) \<noteq> rc_blocks cfg
      then Some (res\<lparr>rr_v := INVALID_SIGNATURE, rr_detail := ''produced '' @ dec_of_nat (length (rr_sigs res))
             @ '' signatures for '' @ dec_of_nat (rc_blocks cfg) @ '' blocks''\<rparr>)
      else case judge_blocks al snap cfg (si_chaincode (make_request cfg)) 0
                  (zip (rr_sigs res) (map bl_data (si_blocks (make_request cfg)))) of
        None \<Rightarrow> None
      | Some (Some detail) \<Rightarrow> Some (res\<lparr>rr_v := INVALID_SIGNATURE, rr_detail := detail\<rparr>)
      | Some None \<Rightarrow>
          if rc_timeout_ms cfg \<noteq> 0 \<and> rc_timeout_ms cfg < rr_elapsed_ms res
          then Some (res\<lparr>rr_v := TIMEOUT,
                 rr_detail := ''exceeded budget of '' @ to_string_u64 (rc_timeout_ms cfg) @ '' ms''\<rparr>)
          else Some (res\<lparr>rr_v := CLEAN_SIGN\<rparr>))"

text \<open>
  \<^verbatim>\<open>session::run\<close>. The one duration a run measures is the argument \<open>elapsed\<close>; the key stores of the
  session and the generator carry on to the next run.
\<close>

definition run_world :: "('pp, 'ps, 'rp, 'rs) setup_lib \<Rightarrow> ('l, 'pp, 'ps, 'rp, 'rs) cmp_service
    \<Rightarrow> ('pp, 'ps, 'rp, 'rs) session \<Rightarrow> run_config \<Rightarrow> drbg_state \<Rightarrow> ('l, 'pp, 'ps, 'rp, 'rs) world" where
  "run_world lib sv se cfg g = \<lparr>w_key_stores = se_key_stores se, w_players = make_players sv (se_ids se),
     w_rng = reseed_with_label (c_sha512 lib) (rc_seed cfg) (rc_txid cfg) g\<rparr>"

definition run_start :: "('pp, 'ps, 'rp, 'rs) setup_lib \<Rightarrow> ('pp, 'ps, 'rp, 'rs) session \<Rightarrow> u64 \<Rightarrow> run_result" where
  "run_start lib se observer = run_result_default\<lparr>rr_key_digest_before :=
     key_store_digest (crypto_lib.truncate lib) (key_store_at (se_key_stores se) observer)\<rparr>"

definition session_run :: "('pp, 'ps, 'rp, 'rs) setup_lib \<Rightarrow> 'c algebra_lib \<Rightarrow> ('l, 'pp, 'ps, 'rp, 'rs) cmp_service
    \<Rightarrow> run_config \<Rightarrow> u64 \<Rightarrow> ('pp, 'ps, 'rp, 'rs) session \<Rightarrow> drbg_state
    \<Rightarrow> run_result option \<times> ('pp, 'ps, 'rp, 'rs) session \<times> drbg_state" where
  "session_run lib al sv cfg elapsed se g =
     (case run_guards (sv_MAX_BLOCKS_TO_SIGN sv) (se_ids se) (s_t (se_snap se)) cfg of
        Some detail \<Rightarrow> (Some (run_result_default\<lparr>rr_v := HARNESS_FAULT, rr_detail := detail\<rparr>), se, g)
      | None \<Rightarrow>
          let observer = hd (run_honest (se_ids se) cfg);
              res = run_start lib se observer;
              (outcome, k, w) = run_rounds sv (se_key_id se) (se_ids se) observer cfg (run_world lib sv se cfg g);
              res1 = res\<lparr>rr_mutations_applied := k\<rparr>
          in (case outcome of
                Inl x \<Rightarrow> Some (reject_run lib cfg elapsed observer w x res1)
              | Inr sigs \<Rightarrow> judge_run al (se_snap se) cfg observer w
                  (close_run lib elapsed observer w (res1\<lparr>rr_sigs := sigs, rr_signature_produced := True\<rparr>)),
              se\<lparr>se_key_stores := w_key_stores w\<rparr>, w_rng w))"

section \<open>The generator probe\<close>

definition flatten :: "cmp_mta_request \<Rightarrow> bytes" where
  "flatten r =
     (let put_len = (\<lambda>n. be_bytes 8 (of_nat n :: u64)); blob = (\<lambda>v. put_len (length v) @ v) in
      blob (mta_message (rq_mta r)) @ blob (mta_commitment (rq_mta r)) @ blob (mta_proof (rq_mta r))
      @ put_len (length (rq_mta_proofs r))
      @ concat (map (\<lambda>(pid, prf). be_bytes 8 pid @ blob prf) (rq_mta_proofs r))
      @ rq_A r @ rq_B r @ rq_Z r)"

definition rng_probe_data :: signing_data where
  "rng_probe_data = \<lparr>si_chaincode = replicate 32 0,
     si_blocks = [\<lparr>bl_data = replicate 32 0x42, bl_path = [44, 0, 0, 0, 0]\<rparr>]\<rparr>"

datatype rng_stage = Stage_none | Stage_snapshot_load | Stage_signer_selection | Stage_start_signing | Stage_rounds | Stage_verify

fun rng_probe_stage :: "rng_stage \<Rightarrow> string" where
  "rng_probe_stage Stage_none = ''none''"
| "rng_probe_stage Stage_snapshot_load = ''snapshot_load''"
| "rng_probe_stage Stage_signer_selection = ''signer_selection''"
| "rng_probe_stage Stage_start_signing = ''start_signing''"
| "rng_probe_stage Stage_rounds = ''rounds''"
| "rng_probe_stage Stage_verify = ''verify''"

text \<open>
  One probe: the stage and text of its failure, or the flattened request. An exception outside
  \<^verbatim>\<open>std::exception\<close> is not caught here and leaves the function as \<open>Unknown_exn\<close>.
\<close>

definition one_shot :: "('pp, 'ps, 'rp, 'rs) setup_lib \<Rightarrow> ('l, 'pp, 'ps, 'rp, 'rs) cmp_service \<Rightarrow> snapshot \<Rightarrow> u64 list
    \<Rightarrow> u64 \<Rightarrow> (u64, ('pp, 'ps, 'rp, 'rs) det_key_persistency) omap \<times> drbg_state
    \<Rightarrow> ((exn + rng_stage \<times> string) + bytes) \<times> (u64, ('pp, 'ps, 'rp, 'rs) det_key_persistency) omap \<times> drbg_state" where
  "one_shot lib sv snap ids seed st =
     (let (stores, g) = st;
          pid = hd ids;
          w = \<lparr>w_key_stores = stores, w_players = [(pid, player_ctx_new sv pid)],
               w_rng = reseed_with_label (c_sha512 lib) seed ''rng-probe'' g\<rparr>;
          (r, w') = call_player pid (sv_start_signing sv ''opus-rng-probe'' ''rng-probe-tx'' (s_algorithm snap)
             rng_probe_data [] (std_set (map to_string_u64 ids)) (std_set ids)) w
      in (case r of
            Inl Unknown_exn \<Rightarrow> Inl (Inl Unknown_exn)
          | Inl e \<Rightarrow> Inl (Inr (Stage_start_signing, ''start_signing threw during the RNG probe: ''
                                @ co_what (guarded (Inl e :: exn + unit))))
          | Inr out \<Rightarrow> if length out \<noteq> 1 then Inl (Inr (Stage_rounds, ''unexpected request count''))
                      else Inr (flatten (hd out)),
          w_key_stores w', w_rng w'))"

definition rng_is_effective :: "('pp, 'ps, 'rp, 'rs) setup_lib \<Rightarrow> ('l, 'pp, 'ps, 'rp, 'rs) cmp_service \<Rightarrow> snapshot
    \<Rightarrow> drbg_state \<Rightarrow> (fault + ((exn + rng_stage \<times> string) + unit)) \<times> drbg_state" where
  "rng_is_effective lib sv snap g =
     (let all_ids = player_ids snap in
      if all_ids = [] then (Inr (Inl (Inr (Stage_signer_selection, ''snapshot has no players''))), g)
      else let ids = (if unat (s_t snap) < length all_ids then take (unat (s_t snap)) all_ids else all_ids);
               (ins, stores) = install_snapshot lib snap ''opus-rng-probe''
                  (foldl (\<lambda>m pid. om_emplace pid [] m) [] all_ids)
      in case ins of
           Inl Out_of_bounds \<Rightarrow> (Inl Out_of_bounds, g)
         | Inl (Err e) \<Rightarrow> (Inr (Inl (Inr (Stage_snapshot_load, ''install_snapshot failed: '' @ e))), g)
         | Inr _ \<Rightarrow>
             if ids = [] then (Inl Out_of_bounds, g) else
             (case one_shot lib sv snap ids 0xC0FFEE (stores, g) of
                (Inl e, _, g) \<Rightarrow> (Inr (Inl e), g)
              | (Inr a, st) \<Rightarrow>
             (case one_shot lib sv snap ids 0xC0FFEE st of
                (Inl e, _, g) \<Rightarrow> (Inr (Inl e), g)
              | (Inr b, st) \<Rightarrow>
                if a \<noteq> b
                then (Inr (Inl (Inr (Stage_verify, ''same seed produced different wire bytes -- the RAND_METHOD override is NOT reaching the library (most likely libcrypto is statically linked into libcosigner.so; check ldd/nm on the built .so)''))), snd st)
                else
             (case one_shot lib sv snap ids 0xBADC0DE st of
                (Inl e, _, g) \<Rightarrow> (Inr (Inl e), g)
              | (Inr c, st) \<Rightarrow>
                if a = c
                then (Inr (Inl (Inr (Stage_verify, ''different seeds produced identical wire bytes -- the RNG appears stuck''))), snd st)
                else (Inr (Inr ()), snd st)))))"

section \<open>The caller contract\<close>

definition caller_contract :: "nat \<Rightarrow> u64 list \<Rightarrow> byte \<Rightarrow> run_config \<Rightarrow> bool" where
  "caller_contract max_blocks ids t cfg \<longleftrightarrow>
     (let signers = run_signers ids cfg in
      signers \<noteq> [] \<and> distinct signers \<and> set signers \<subseteq> set ids \<and> length signers = unat t
      \<and> (\<exists>h\<in>set signers. h \<notin> set (rc_malicious_ids cfg)) \<and> set (rc_malicious_ids cfg) \<subseteq> set ids
      \<and> 0 < rc_blocks cfg \<and> rc_blocks cfg \<le> max_blocks)"

lemma length_std_set: "length (std_set xs) = length xs \<longleftrightarrow> distinct xs"
  by (simp add: std_set_def length_remdups_card_conv distinct_card card_distinct iffI)

lemma run_honest_set: "set (run_honest ids cfg) = {h \<in> set (run_signers ids cfg). h \<notin> set (rc_malicious_ids cfg)}"
  by (auto simp: run_honest_def)

lemma find_outside: "List.find (\<lambda>x. x \<notin> A) xs = None \<longleftrightarrow> set xs \<subseteq> A"
  by (auto simp: find_None_iff)

lemma run_guards_None: "run_guards mb ids t cfg = None \<longleftrightarrow> caller_contract mb ids t cfg"
proof -
  have "run_honest ids cfg = [] \<longleftrightarrow> \<not> (\<exists>h\<in>set (run_signers ids cfg). h \<notin> set (rc_malicious_ids cfg))"
    using run_honest_set [of ids cfg] by (auto simp: run_honest_def filter_empty_conv)
  then show ?thesis
    by (auto simp: run_guards_def caller_contract_def Let_def length_std_set find_outside [symmetric]
        split: option.splits if_splits)
qed

lemma run_guards_text: "run_guards mb ids t cfg = Some d \<Longrightarrow> d \<noteq> []"
  by (auto simp: run_guards_def Let_def split: option.splits if_splits)

lemma run_honest_hd:
  assumes "caller_contract mb ids t cfg"
  shows "hd (run_honest ids cfg) \<in> set (run_signers ids cfg)" "hd (run_honest ids cfg) \<notin> set (rc_malicious_ids cfg)"
    "hd (run_honest ids cfg) \<in> set ids"
proof -
  have "run_honest ids cfg \<noteq> []"
    using assms by (auto simp: caller_contract_def Let_def run_honest_def filter_empty_conv)
  then have "hd (run_honest ids cfg) \<in> set (run_honest ids cfg)" by simp
  then show "hd (run_honest ids cfg) \<in> set (run_signers ids cfg)" "hd (run_honest ids cfg) \<notin> set (rc_malicious_ids cfg)"
    by (simp_all add: run_honest_set)
  then show "hd (run_honest ids cfg) \<in> set ids" using assms by (auto simp: caller_contract_def Let_def)
qed

text \<open>The rounds of a run that passed the guards, and its final world.\<close>

definition rounds_of where
  "rounds_of lib sv cfg se g =
     run_rounds sv (se_key_id se) (se_ids se) (hd (run_honest (se_ids se) cfg)) cfg (run_world lib sv se cfg g)"

abbreviation session_contract where
  "session_contract sv cfg se \<equiv> caller_contract (sv_MAX_BLOCKS_TO_SIGN sv) (se_ids se) (s_t (se_snap se)) cfg"

lemma session_run_guarded:
  assumes "\<not> session_contract sv cfg se"
  obtains d where "d \<noteq> []"
    "session_run lib al sv cfg elapsed se g = (Some (run_result_default\<lparr>rr_v := HARNESS_FAULT, rr_detail := d\<rparr>), se, g)"
proof -
  obtain d where "run_guards (sv_MAX_BLOCKS_TO_SIGN sv) (se_ids se) (s_t (se_snap se)) cfg = Some d"
    using assms run_guards_None by (metis not_None_eq)
  then show ?thesis using run_guards_text by (intro that [of d]) (auto simp: session_run_def)
qed

lemma session_run_thrown:
  assumes "session_contract sv cfg se" "rounds_of lib sv cfg se g = (Inl x, k, w)"
  shows "session_run lib al sv cfg elapsed se g =
    (Some (reject_run lib cfg elapsed (hd (run_honest (se_ids se) cfg)) w x
       ((run_start lib se (hd (run_honest (se_ids se) cfg)))\<lparr>rr_mutations_applied := k\<rparr>)),
     se\<lparr>se_key_stores := w_key_stores w\<rparr>, w_rng w)"
  using assms by (simp add: session_run_def run_guards_None [symmetric] rounds_of_def Let_def)

lemma session_run_signed:
  assumes "session_contract sv cfg se" "rounds_of lib sv cfg se g = (Inr sigs, k, w)"
  shows "session_run lib al sv cfg elapsed se g =
    (judge_run al (se_snap se) cfg (hd (run_honest (se_ids se) cfg)) w
       (close_run lib elapsed (hd (run_honest (se_ids se) cfg)) w
         ((run_start lib se (hd (run_honest (se_ids se) cfg)))\<lparr>rr_mutations_applied := k, rr_sigs := sigs,
            rr_signature_produced := True\<rparr>)),
     se\<lparr>se_key_stores := w_key_stores w\<rparr>, w_rng w)"
  using assms by (simp add: session_run_def run_guards_None [symmetric] rounds_of_def Let_def)

section \<open>What a clean signature means\<close>

text \<open>The harness's own judgement of one signature, with no reference to the code that makes it.\<close>

definition sound_signature :: "'c algebra_lib \<Rightarrow> snapshot \<Rightarrow> run_config \<Rightarrow> recoverable_signature \<Rightarrow> bytes \<Rightarrow> bool" where
  "sound_signature al snap cfg sig msg \<longleftrightarrow>
     (\<exists>key. derived_key al snap (rc_path cfg) (replicate 32 0) = Some key \<and> accepts al key sig msg
        \<and> (\<forall>m\<in>set canaries. \<not> accepts al key sig m))
     \<and> (rc_metadata_json cfg = ''positive_r'' \<longrightarrow> is_positive_scalar al (s_algorithm snap) (sg_r sig))"

lemma length_block_message [simp]: "length (block_message i) = 32"
  by (simp add: block_message_def)

lemma make_request_messages: "map bl_data (si_blocks (make_request cfg)) = map block_message [0..<rc_blocks cfg]"
  by (simp add: make_request_def comp_def)

lemma judge_blocks_defined: "key_in_bounds snap \<Longrightarrow> judge_blocks al snap cfg cc i xs \<noteq> None"
proof (induction xs arbitrary: i)
  case (Cons x xs)
  obtain sig msg where x: "x = (sig, msg)" by fastforce
  have "oracle_signature_valid al snap msg (rc_path cfg) cc sig (rc_metadata_json cfg = ''positive_r'') \<noteq> None"
    "oracle_no_canary_forgery al snap (rc_path cfg) cc sig \<noteq> None"
    by (rule oracles_defined [OF Cons.prems])+
  then show ?case using Cons x by (auto split: option.splits)
qed simp

lemma judge_blocks_clean:
  assumes "key_in_bounds snap" "\<forall>x\<in>set xs. length (snd x) = 32"
  shows "judge_blocks al snap cfg (replicate 32 0) i xs = Some None \<longleftrightarrow>
    (\<forall>(sig, msg)\<in>set xs. sound_signature al snap cfg sig msg)"
  using assms(2)
proof (induction xs arbitrary: i)
  case (Cons x xs)
  obtain sig msg where x: "x = (sig, msg)" by fastforce
  let ?v = "oracle_signature_valid al snap msg (rc_path cfg) (replicate 32 0) sig (rc_metadata_json cfg = ''positive_r'')"
  let ?c = "oracle_no_canary_forgery al snap (rc_path cfg) (replicate 32 0) sig"
  have d: "?v \<noteq> None" "?c \<noteq> None" using oracles_defined [OF assms(1)] by metis+
  have s: "sound_signature al snap cfg sig msg \<longleftrightarrow> (\<exists>e. ?v = Some (True, e)) \<and> (\<exists>e. ?c = Some (True, e))"
    using Cons.prems x
    by (auto simp: sound_signature_def oracle_signature_valid_true [OF assms(1)]
        oracle_no_canary_forgery_true [OF assms(1)])
  have "judge_blocks al snap cfg (replicate 32 0) i (x # xs) = Some None \<longleftrightarrow>
      (\<exists>e. ?v = Some (True, e)) \<and> (\<exists>e. ?c = Some (True, e))
      \<and> judge_blocks al snap cfg (replicate 32 0) (i + 1) xs = Some None"
    using d x by (auto split: option.splits if_splits)
  with s Cons x show ?case by auto
qed simp

lemma zip_blocks:
  "length sigs = n \<Longrightarrow> (\<forall>(sig, msg)\<in>set (zip sigs (map block_message [0..<n])). P sig msg)
     \<longleftrightarrow> (\<forall>i<n. P (sigs ! i) (block_message i))"
  by (force simp: set_zip)

lemma judge_run_clean:
  assumes "key_in_bounds snap"
  shows "(\<exists>r. judge_run al snap cfg obs w res = Some r \<and> rr_v r = CLEAN_SIGN) \<longleftrightarrow>
     rr_key_store_unchanged res \<and> \<not> record_present w obs (rc_txid cfg) \<and> length (rr_sigs res) = rc_blocks cfg
     \<and> (\<forall>i<rc_blocks cfg. sound_signature al snap cfg (rr_sigs res ! i) (block_message i))
     \<and> (rc_timeout_ms cfg = 0 \<or> rr_elapsed_ms res \<le> rc_timeout_ms cfg)"
proof -
  have l: "\<forall>x\<in>set (zip (rr_sigs res) (map block_message [0..<rc_blocks cfg])). length (snd x) = 32"
    by (auto dest!: set_zip_rightD)
  have jb: "judge_blocks al snap cfg (replicate 32 0) 0 (zip (rr_sigs res) (map block_message [0..<rc_blocks cfg])) = Some None
      \<longleftrightarrow> (\<forall>i<rc_blocks cfg. sound_signature al snap cfg (rr_sigs res ! i) (block_message i))"
    if "length (rr_sigs res) = rc_blocks cfg"
    using judge_blocks_clean [OF assms l] zip_blocks [OF that] by simp
  have cc: "si_chaincode (make_request cfg) = replicate 32 0" by (simp add: make_request_def)
  show ?thesis
    using jb unfolding judge_run_def cc make_request_messages
    by (auto simp: not_less split: option.splits if_splits)
qed

text \<open>C1: a run whose configuration satisfies the caller contract, on a session whose snapshot key has
  its 33 bytes, is judged CLEAN-SIGN exactly when all five rounds returned, the honest observer's
  key store has the digest it had before, its temporary record is gone, there is one signature per
  block, every signature is accepted by the key derived from the snapshot for the message the
  harness itself asked for and for no canary (and has a positive r when that was requested), and
  the time budget was kept. The run then reports those signatures and no failure.\<close>

theorem clean_sign_iff:
  assumes "session_contract sv cfg se" and "key_in_bounds (se_snap se)"
    and "rounds_of lib sv cfg se g = (outcome, k, w)" and "obs = hd (run_honest (se_ids se) cfg)"
  shows "(\<exists>res se' g'. session_run lib al sv cfg elapsed se g = (Some res, se', g') \<and> rr_v res = CLEAN_SIGN)
    \<longleftrightarrow> (\<exists>sigs. outcome = Inr sigs
          \<and> key_store_digest (crypto_lib.truncate lib) (key_store_at (se_key_stores se) obs)
            = key_store_digest (crypto_lib.truncate lib) (key_store_at (w_key_stores w) obs)
          \<and> \<not> record_present w obs (rc_txid cfg) \<and> length sigs = rc_blocks cfg
          \<and> (\<forall>i<rc_blocks cfg. sound_signature al (se_snap se) cfg (sigs ! i) (block_message i))
          \<and> (rc_timeout_ms cfg = 0 \<or> elapsed \<le> rc_timeout_ms cfg))"
proof (cases outcome)
  case (Inl x)
  have "rr_v (reject_run lib cfg elapsed o' w x r) \<noteq> CLEAN_SIGN" for o' r
    by (simp add: reject_run_def close_run_def fail_def Let_def split: prod.split)
  then show ?thesis
    using Inl session_run_thrown [OF assms(1), of lib g x k w al elapsed] assms(3) by auto
next
  case (Inr sigs)
  let ?res = "close_run lib elapsed obs w ((run_start lib se obs)\<lparr>rr_mutations_applied := k, rr_sigs := sigs,
            rr_signature_produced := True\<rparr>)"
  have "(\<exists>res se' g'. session_run lib al sv cfg elapsed se g = (Some res, se', g') \<and> rr_v res = CLEAN_SIGN)
      \<longleftrightarrow> (\<exists>r. judge_run al (se_snap se) cfg obs w ?res = Some r \<and> rr_v r = CLEAN_SIGN)"
    using session_run_signed [OF assms(1), of lib g sigs k w al elapsed] assms(3,4) Inr by auto
  also note judge_run_clean [OF assms(2)]
  finally show ?thesis using Inr by (simp add: close_run_def run_start_def Let_def)
qed

section \<open>A concrete service\<close>

text \<open>
  A service that keeps the integrator contract: it stores a record, checks the requests it is sent,
  answers every round from the record, and deletes it when it returns the signatures, which the toy
  curve accepts for the stored messages.
\<close>

definition toy_throw :: "(exn + 'o)" where
  "toy_throw = Inl (Cosigner_exception ''INVALID_PARAMETERS'')"

definition toy_with_record :: "string \<Rightarrow> (cmp_signing_metadata \<Rightarrow> exn + 'o) \<Rightarrow> (unit, nat, nat, nat, nat, 'o) service_call" where
  "toy_with_record txid f e =
     (case load_cmp_signing_data txid (pe_store e) of Inl _ \<Rightarrow> (toy_throw, e) | Inr md \<Rightarrow> (f md, e))"

definition toy_service :: "(unit, nat, nat, nat, nat) cmp_service" where
  "toy_service = \<lparr>sv_new = (\<lambda>_. ()), sv_MPC_PROTOCOL_VERSION = 1, sv_MAX_BLOCKS_TO_SIGN = 5,
     sv_start_signing = (\<lambda>key txid alg data meta strs ids e.
       case store_cmp_signing_data txid (sample_metadata\<lparr>sm_sig_data :=
           map (\<lambda>b. (sample_sig_data [])\<lparr>sd_message := bl_data b\<rparr>) (si_blocks data)\<rparr>) (pe_store e) of
         (Inl _, st) \<Rightarrow> (toy_throw, e\<lparr>pe_store := st\<rparr>)
       | (Inr _, st) \<Rightarrow> (Inr (map (\<lambda>_. sample_request) (si_blocks data)), e\<lparr>pe_store := st\<rparr>)),
     sv_mta_response = (\<lambda>txid inp v. toy_with_record txid (\<lambda>md.
       if \<forall>(i, rs)\<in>set inp. \<forall>r\<in>set rs. r = sample_request then Inr sample_responses else toy_throw)),
     sv_mta_verify = (\<lambda>txid inp. toy_with_record txid (\<lambda>md. Inr (map (\<lambda>_. sample_deltas) (sm_sig_data md)))),
     sv_get_si = (\<lambda>txid inp. toy_with_record txid (\<lambda>md. Inr (map (\<lambda>_. replicate 32 1) (sm_sig_data md)))),
     sv_get_cmp_signature = (\<lambda>txid inp e.
       case load_cmp_signing_data txid (pe_store e) of
         Inl _ \<Rightarrow> (toy_throw, e)
       | Inr md \<Rightarrow> (Inr (map (\<lambda>sd. \<lparr>sg_r = sd_message sd, sg_s = replicate 32 1, sg_v = 0\<rparr>) (sm_sig_data md)),
           e\<lparr>pe_store := delete_temporary_signing_data txid (pe_store e)\<rparr>))\<rparr>"

definition toy_session :: "(nat, nat, nat, nat) session" where
  "toy_session = \<lparr>se_ok = True, se_key_id = ''k'', se_snap = toy_fixture, se_ids = [1, 2, 3],
     se_key_stores = [(1, []), (2, []), (3, [])]\<rparr>"

definition toy_config :: run_config where
  "toy_config = run_config_default\<lparr>rc_signers_ids := [1, 2], rc_malicious_ids := [2], rc_blocks := 2\<rparr>"

lemma toy_contract: "session_contract toy_service toy_config toy_session"
  by code_simp

lemma toy_key_in_bounds: "key_in_bounds (se_snap toy_session)"
  by code_simp

lemma toy_rounds:
  "fst (rounds_of toy_lib toy_service toy_config toy_session g_state_init)
     = Inr (map (\<lambda>i. \<lparr>sg_r = block_message i, sg_s = replicate 32 1, sg_v = 0\<rparr>) [0, 1])"
  by code_simp

lemma toy_final:
  "key_store_at (w_key_stores (snd (snd (rounds_of toy_lib toy_service toy_config toy_session g_state_init)))) 1 = []
   \<and> \<not> record_present (snd (snd (rounds_of toy_lib toy_service toy_config toy_session g_state_init))) 1 ''opus-tx-0''"
  by code_simp

lemma toy_sound:
  "sound_signature toy_algebra toy_fixture toy_config \<lparr>sg_r = block_message i, sg_s = replicate 32 1, sg_v = 0\<rparr> (block_message i)"
  if "i < 2"
proof -
  have "block_message i \<notin> set canaries" using that by (auto simp: less_Suc_eq numeral_2_eq_2) code_simp+
  then show ?thesis
    by (auto simp: sound_signature_def derived_key_def make_algebra_def toy_algebra_def accepts_def toy_fixture_def
        toy_config_def run_config_default_def Let_def)
qed

theorem clean_sign_iff_witness:
  "\<exists>res se' g'. session_run toy_lib toy_algebra toy_service toy_config 7 toy_session g_state_init = (Some res, se', g')
     \<and> rr_v res = CLEAN_SIGN"
proof -
  obtain k w where r: "rounds_of toy_lib toy_service toy_config toy_session g_state_init
      = (Inr (map (\<lambda>i. \<lparr>sg_r = block_message i, sg_s = replicate 32 1, sg_v = 0\<rparr>) [0, 1]), k, w)"
    using toy_rounds by (metis prod.collapse)
  have obs: "1 = hd (run_honest (se_ids toy_session) toy_config)" by code_simp
  have "rc_blocks toy_config = 2" "rc_txid toy_config = ''opus-tx-0''" "rc_timeout_ms toy_config = 0"
    "se_snap toy_session = toy_fixture" "key_store_at (se_key_stores toy_session) 1 = []"
    by (simp_all add: toy_config_def run_config_default_def toy_session_def key_store_at_def om_find_def)
  then show ?thesis
    using clean_sign_iff [OF toy_contract toy_key_in_bounds r obs, of toy_algebra 7] toy_final toy_sound r
    by (auto simp: less_Suc_eq numeral_2_eq_2)
qed

section \<open>How a run can end\<close>

definition fatal_exn :: "exn \<Rightarrow> bool" where
  "fatal_exn e \<longleftrightarrow> (case e of Std_exception _ \<Rightarrow> True | Unknown_exn \<Rightarrow> True | _ \<Rightarrow> False)"

lemma guarded_fatal: "co_fatal (guarded (Inl e :: exn + 'a)) = fatal_exn e"
  by (simp add: guarded_def fatal_exn_def call_outcome_default_def Let_def split: exn.split)

text \<open>C33: a run that breaks the caller contract (no signers, duplicate or unknown signers, a signer
  count different from the snapshot's threshold, no honest signer, an unknown malicious id, no
  block or too many) is a HARNESS-FAULT with a reason; no player is created, no library call is
  made, and neither the session nor the generator changes.\<close>

theorem broken_contract_is_harness_fault:
  assumes "\<not> session_contract sv cfg se"
  shows "\<exists>res. session_run lib al sv cfg elapsed se g = (Some res, se, g) \<and> rr_v res = HARNESS_FAULT
    \<and> rr_detail res \<noteq> [] \<and> rr_mutations_applied res = 0 \<and> rr_sigs res = [] \<and> rr_failed_round res = 0"
proof -
  from session_run_guarded [OF assms, of lib al elapsed g] obtain d where
    "d \<noteq> []" "session_run lib al sv cfg elapsed se g = (Some (run_result_default\<lparr>rr_v := HARNESS_FAULT, rr_detail := d\<rparr>), se, g)" .
  then show ?thesis by (simp add: run_result_default_def)
qed

theorem broken_contract_is_harness_fault_witness:
  "\<exists>res. session_run toy_lib toy_algebra toy_service (toy_config\<lparr>rc_malicious_ids := [1, 2]\<rparr>) 7 toy_session g_state_init
     = (Some res, toy_session, g_state_init) \<and> rr_v res = HARNESS_FAULT"
proof -
  have "\<not> session_contract toy_service (toy_config\<lparr>rc_malicious_ids := [1, 2]\<rparr>) toy_session" by code_simp
  from broken_contract_is_harness_fault [OF this] show ?thesis by blast
qed

lemma run_rounds_thrower:
  assumes "run_rounds sv key_id ids obs cfg w = (Inl (round, pid, e), k, w')"
  shows "1 \<le> round \<and> round \<le> 5 \<and> (pid \<in> set (run_signers ids cfg) \<or> pid = obs) \<and> (round = 5 \<longrightarrow> pid = obs)"
  using assms unfolding run_rounds_def Let_def
  by (auto simp: round1_def round2_def round3_def round4_def round5_def Let_def dest: run_round_thrower
      split: prod.splits sum.splits)

lemma judge_run_defined:
  assumes "key_in_bounds snap"
  obtains r where "judge_run al snap cfg obs w res = Some r"
proof -
  obtain y where y: "judge_blocks al snap cfg (si_chaincode (make_request cfg)) 0
      (zip (rr_sigs res) (map bl_data (si_blocks (make_request cfg)))) = Some y"
    using judge_blocks_defined [OF assms] by blast
  have "judge_run al snap cfg obs w res \<noteq> None" by (simp add: judge_run_def y split: option.split)
  then show ?thesis using that by blast
qed

lemma judge_run_fields:
  assumes "judge_run al snap cfg obs w res = Some r"
  shows "rr_v r \<in> {CLEAN_SIGN, INVALID_SIGNATURE, STATE_CORRUPTION, TIMEOUT}"
    "rr_failed_round r = rr_failed_round res" "rr_sigs r = rr_sigs res"
    "rr_mutations_applied r = rr_mutations_applied res" "rr_signature_produced r = rr_signature_produced res"
  using assms by (auto simp: judge_run_def split: if_splits option.splits)

text \<open>C2: a run under the caller contract reports a failed round exactly when a library call threw.
  The verdict is then CRASH for an exception outside the enumerated surface, HARNESS-FAULT for a
  clean exception when no player is malicious, and CLEAN-REJECT otherwise; the round is 1 to 5, the
  player is a signer (the honest observer in round 5), the exception type is reported and there is
  no signature. A run in which no call threw is never CRASH, CLEAN-REJECT or HARNESS-FAULT.\<close>

theorem run_failure_classification:
  assumes "session_contract sv cfg se" and "key_in_bounds (se_snap se)"
    and "rounds_of lib sv cfg se g = (outcome, k, w)"
  shows "\<exists>res. session_run lib al sv cfg elapsed se g = (Some res, se\<lparr>se_key_stores := w_key_stores w\<rparr>, w_rng w)
    \<and> rr_mutations_applied res = k
    \<and> (case outcome of
         Inl (round, pid, e) \<Rightarrow>
           rr_v res = (if fatal_exn e then CRASH else if honest_only cfg then HARNESS_FAULT else CLEAN_REJECT)
           \<and> rr_failed_round res = round \<and> 1 \<le> round \<and> round \<le> 5 \<and> rr_failed_player res = pid
           \<and> pid \<in> set (run_signers (se_ids se) cfg) \<and> (round = 5 \<longrightarrow> pid \<notin> set (rc_malicious_ids cfg))
           \<and> rr_exception_type res = co_type (guarded (Inl e :: exn + unit))
           \<and> rr_sigs res = [] \<and> \<not> rr_signature_produced res
       | Inr sigs \<Rightarrow>
           rr_v res \<in> {CLEAN_SIGN, INVALID_SIGNATURE, STATE_CORRUPTION, TIMEOUT}
           \<and> rr_failed_round res = 0 \<and> rr_sigs res = sigs \<and> rr_signature_produced res)"
proof (cases outcome)
  case (Inl x)
  obtain round pid e where x: "x = (round, pid, e)" by (metis prod.collapse)
  have "1 \<le> round \<and> round \<le> 5 \<and> (pid \<in> set (run_signers (se_ids se) cfg) \<or> pid = hd (run_honest (se_ids se) cfg))
      \<and> (round = 5 \<longrightarrow> pid = hd (run_honest (se_ids se) cfg))"
    using assms(3) Inl x by (intro run_rounds_thrower) (auto simp: rounds_of_def)
  moreover note run_honest_hd [OF assms(1)]
  ultimately show ?thesis
    using session_run_thrown [OF assms(1), of lib g x k w al elapsed] assms(3) Inl x
    by (auto simp: reject_run_def close_run_def fail_def run_start_def run_result_default_def Let_def guarded_fatal)
next
  case (Inr sigs)
  let ?obs = "hd (run_honest (se_ids se) cfg)"
  let ?res = "close_run lib elapsed ?obs w ((run_start lib se ?obs)\<lparr>rr_mutations_applied := k, rr_sigs := sigs,
            rr_signature_produced := True\<rparr>)"
  obtain r where r: "judge_run al (se_snap se) cfg ?obs w ?res = Some r" by (rule judge_run_defined [OF assms(2)])
  from judge_run_fields [OF r] show ?thesis
    using session_run_signed [OF assms(1), of lib g sigs k w al elapsed] assms(3) Inr r
    by (simp add: close_run_def run_start_def run_result_default_def Let_def)
qed

definition toy_attack :: run_config where
  "toy_attack = toy_config\<lparr>rc_mutations := [\<lparr>m_round = 1, m_attacker = 2, m_field = R1_MTA_MESSAGE, m_op = FLIP_BIT,
     m_block = 0, m_byte_index = 3, m_bit = 5\<rparr>]\<rparr>"

lemma toy_attack_rounds:
  "fst (rounds_of toy_lib toy_service toy_attack toy_session g_state_init)
     = Inl (2, 1, Cosigner_exception ''INVALID_PARAMETERS'')
   \<and> fst (snd (rounds_of toy_lib toy_service toy_attack toy_session g_state_init)) = 1"
  by code_simp

theorem run_failure_classification_witness:
  "\<exists>res se' g'. session_run toy_lib toy_algebra toy_service toy_attack 7 toy_session g_state_init = (Some res, se', g')
     \<and> rr_v res = CLEAN_REJECT \<and> rr_failed_round res = 2 \<and> rr_mutations_applied res = 1"
proof -
  obtain w where r: "rounds_of toy_lib toy_service toy_attack toy_session g_state_init
      = (Inl (2, 1, Cosigner_exception ''INVALID_PARAMETERS''), 1, w)"
    using toy_attack_rounds by (metis prod.collapse)
  have c: "session_contract toy_service toy_attack toy_session" by code_simp
  have "\<not> honest_only toy_attack" by code_simp
  with run_failure_classification [OF c toy_key_in_bounds r, of toy_algebra 7] show ?thesis
    by (auto simp: fatal_exn_def)
qed

section \<open>What a mutation changes\<close>

text \<open>The configuration with its mutations removed.\<close>

abbreviation unmutated :: "run_config \<Rightarrow> run_config" where
  "unmutated cfg \<equiv> cfg\<lparr>rc_mutations := []\<rparr>"

lemma view_unmutated: "view (unmutated cfg) r app wire = (\<lambda>_. (0, wire))"
  by (simp add: view_def find_mut_def fun_eq_iff)

lemma view_zero:
  assumes "\<And>m v. \<not> fst (app m wire v) \<Longrightarrow> snd (app m wire v) = wire" and "fst (view cfg r app wire v) = 0"
  shows "view cfg r app wire v = (0, wire)"
proof (cases "v \<in> set (rc_malicious_ids cfg) \<or> find_mut cfg r = None")
  case True
  then show ?thesis by (auto simp: view_def)
next
  case False
  then obtain m where m: "v \<notin> set (rc_malicious_ids cfg)" "find_mut cfg r = Some m" by auto
  then have "\<not> fst (app m wire v)" using assms(2) by (auto simp: view_def split: prod.splits if_splits)
  with assms(1) [OF this] m show ?thesis by (simp add: view_def case_prod_beta)
qed

lemmas views = view_r1_def view_r2_def view_r3_def view_r4_def

lemma views_zero:
  "map_good (list_all good_request) w1 \<Longrightarrow> fst (view_r1 cfg w1 v) = 0 \<Longrightarrow> view_r1 cfg w1 v = (0, w1)"
  "map_good good_responses w2 \<Longrightarrow> fst (view_r2 cfg w2 v) = 0 \<Longrightarrow> view_r2 cfg w2 v = (0, w2)"
  "map_good (list_all good_deltas) w3 \<Longrightarrow> fst (view_r3 cfg w3 v) = 0 \<Longrightarrow> view_r3 cfg w3 v = (0, w3)"
  "map_good (list_all good_si) w4 \<Longrightarrow> fst (view_r4 ids cfg w4 v) = 0 \<Longrightarrow> view_r4 ids cfg w4 v = (0, w4)"
  unfolding views by (auto intro!: view_zero r1.refused r2.refused r3.refused r4.refused)

lemma round_outputs_good:
  assumes "well_typed_service sv"
  shows "round1 sv key signers cfg w = (Inr x1, k', w') \<Longrightarrow> map_good (list_all good_request) x1"
    "round2 sv signers cfg q k w = (Inr x2, k', w') \<Longrightarrow> map_good good_responses x2"
    "round3 sv signers cfg x2 k w = (Inr x3, k', w') \<Longrightarrow> map_good (list_all good_deltas) x3"
    "round4 sv signers cfg x3 k w = (Inr x4, k', w') \<Longrightarrow> map_good (list_all good_si) x4"
  unfolding round1_def round2_def round3_def round4_def
  by (erule run_round_good; (elim call_player_result)?; simp add: well_typedD [OF assms])+

lemma round1_unmutated: "round1 sv key signers (unmutated cfg) w = round1 sv key signers cfg w"
  by (simp add: round1_def make_request_def)

lemma rounds_unmutated:
  "map_good (list_all good_request) q \<Longrightarrow> round2 sv signers cfg q k w = (r2, k, w') \<Longrightarrow>
     round2 sv signers (unmutated cfg) q k w = (r2, k, w')"
  "map_good good_responses x2 \<Longrightarrow> round3 sv signers cfg x2 k w = (r3, k, w') \<Longrightarrow>
     round3 sv signers (unmutated cfg) x2 k w = (r3, k, w')"
  "map_good (list_all good_deltas) x3 \<Longrightarrow> round4 sv signers cfg x3 k w = (r4, k, w') \<Longrightarrow>
     round4 sv signers (unmutated cfg) x3 k w = (r4, k, w')"
  "map_good (list_all good_si) x4 \<Longrightarrow> round5 sv ids obs cfg x4 k w = (r5, k, w') \<Longrightarrow>
     round5 sv ids obs (unmutated cfg) x4 k w = (r5, k, w')"
proof -
  have v: "view_r1 (unmutated cfg) q = (\<lambda>_. (0, q))" "view_r2 (unmutated cfg) x2 = (\<lambda>_. (0, x2))"
    "view_r3 (unmutated cfg) x3 = (\<lambda>_. (0, x3))" "view_r4 ids (unmutated cfg) x4 = (\<lambda>_. (0, x4))"
    by (simp_all add: views view_unmutated)
  show "round2 sv signers (unmutated cfg) q k w = (r2, k, w')"
    if "map_good (list_all good_request) q" "round2 sv signers cfg q k w = (r2, k, w')"
    using run_round_unaltered [OF that(2) [unfolded round2_def] views_zero(1) [OF that(1)]]
    by (simp add: round2_def v)
  show "round3 sv signers (unmutated cfg) x2 k w = (r3, k, w')"
    if "map_good good_responses x2" "round3 sv signers cfg x2 k w = (r3, k, w')"
    using run_round_unaltered [OF that(2) [unfolded round3_def] views_zero(2) [OF that(1)]]
    by (simp add: round3_def v)
  show "round4 sv signers (unmutated cfg) x3 k w = (r4, k, w')"
    if "map_good (list_all good_deltas) x3" "round4 sv signers cfg x3 k w = (r4, k, w')"
    using run_round_unaltered [OF that(2) [unfolded round4_def] views_zero(3) [OF that(1)]]
    by (simp add: round4_def v)
  show "round5 sv ids obs (unmutated cfg) x4 k w = (r5, k, w')"
    if "map_good (list_all good_si) x4" "round5 sv ids obs cfg x4 k w = (r5, k, w')"
  proof -
    have "fst (view_r4 ids cfg x4 obs) = 0" using that(2) by (auto simp: round5_def Let_def split: prod.splits)
    with views_zero(4) [OF that(1)] have "view_r4 ids cfg x4 obs = (0, x4)" by blast
    with that(2) v(4) show ?thesis by (simp add: round5_def)
  qed
qed

lemma round_counts:
  "round2 sv signers cfg q k w = (r2, k', w') \<Longrightarrow> k \<le> k'"
  "round3 sv signers cfg x2 k w = (r3, k', w') \<Longrightarrow> k \<le> k'"
  "round4 sv signers cfg x3 k w = (r4, k', w') \<Longrightarrow> k \<le> k'"
  "round5 sv ids obs cfg x4 k w = (r5, k', w') \<Longrightarrow> k \<le> k'"
  unfolding round2_def round3_def round4_def round5_def
  by (auto dest: run_round_count split: prod.splits)

lemma run_signers_unmutated [simp]: "run_signers ids (unmutated cfg) = run_signers ids cfg"
  by (simp add: run_signers_def)

text \<open>The rounds peeled off one by one.\<close>

lemma run_rounds_cases:
  assumes "run_rounds sv key ids obs cfg w = (outcome, k, w')"
  obtains (in1) x where "round1 sv key (run_signers ids cfg) cfg w = (Inl x, k, w')" "outcome = Inl (1, x)"
  | (in2) q k1 w1 x where "round1 sv key (run_signers ids cfg) cfg w = (Inr q, k1, w1)"
      "round2 sv (run_signers ids cfg) cfg q k1 w1 = (Inl x, k, w')" "outcome = Inl (2, x)"
  | (in3) q k1 w1 x2 k2 w2 x where "round1 sv key (run_signers ids cfg) cfg w = (Inr q, k1, w1)"
      "round2 sv (run_signers ids cfg) cfg q k1 w1 = (Inr x2, k2, w2)"
      "round3 sv (run_signers ids cfg) cfg x2 k2 w2 = (Inl x, k, w')" "outcome = Inl (3, x)"
  | (in4) q k1 w1 x2 k2 w2 x3 k3 w3 x where "round1 sv key (run_signers ids cfg) cfg w = (Inr q, k1, w1)"
      "round2 sv (run_signers ids cfg) cfg q k1 w1 = (Inr x2, k2, w2)"
      "round3 sv (run_signers ids cfg) cfg x2 k2 w2 = (Inr x3, k3, w3)"
      "round4 sv (run_signers ids cfg) cfg x3 k3 w3 = (Inl x, k, w')" "outcome = Inl (4, x)"
  | (in5) q k1 w1 x2 k2 w2 x3 k3 w3 x4 k4 w4 r where "round1 sv key (run_signers ids cfg) cfg w = (Inr q, k1, w1)"
      "round2 sv (run_signers ids cfg) cfg q k1 w1 = (Inr x2, k2, w2)"
      "round3 sv (run_signers ids cfg) cfg x2 k2 w2 = (Inr x3, k3, w3)"
      "round4 sv (run_signers ids cfg) cfg x3 k3 w3 = (Inr x4, k4, w4)"
      "round5 sv ids obs cfg x4 k4 w4 = (r, k, w')" "outcome = map_sum (Pair 5) id r"
  using assms unfolding run_rounds_def Let_def
  by (auto split: prod.splits sum.splits)

lemma run_rounds_unmutated:
  assumes wt: "well_typed_service sv" and "run_rounds sv key ids obs cfg w = (outcome, 0, w')"
  shows "run_rounds sv key ids obs (unmutated cfg) w = (outcome, 0, w')"
  using assms(2)
proof (cases rule: run_rounds_cases)
  case (in1 x)
  then show ?thesis by (simp add: run_rounds_def round1_unmutated)
next
  case (in2 q k1 w1 x)
  have k: "k1 = 0" using in2 round_counts(1) by fastforce
  note in2 = in2 [unfolded k]
  show ?thesis
    using in2 rounds_unmutated(1) [OF round_outputs_good(1) [OF wt in2(1)] in2(2)]
    by (simp add: run_rounds_def round1_unmutated Let_def)
next
  case (in3 q k1 w1 x2 k2 w2 x)
  have k: "k2 = 0" "k1 = 0" using in3 round_counts(1,2) by fastforce+
  note in3 = in3 [unfolded k]
  show ?thesis
    using in3 rounds_unmutated(1) [OF round_outputs_good(1) [OF wt in3(1)] in3(2)]
      rounds_unmutated(2) [OF round_outputs_good(2) [OF wt in3(2)] in3(3)]
    by (simp add: run_rounds_def round1_unmutated Let_def)
next
  case (in4 q k1 w1 x2 k2 w2 x3 k3 w3 x)
  have k: "k3 = 0" "k2 = 0" "k1 = 0" using in4 round_counts(1,2,3) by fastforce+
  note in4 = in4 [unfolded k]
  show ?thesis
    using in4 rounds_unmutated(1) [OF round_outputs_good(1) [OF wt in4(1)] in4(2)]
      rounds_unmutated(2) [OF round_outputs_good(2) [OF wt in4(2)] in4(3)]
      rounds_unmutated(3) [OF round_outputs_good(3) [OF wt in4(3)] in4(4)]
    by (simp add: run_rounds_def round1_unmutated Let_def)
next
  case (in5 q k1 w1 x2 k2 w2 x3 k3 w3 x4 k4 w4 r)
  have k: "k4 = 0" "k3 = 0" "k2 = 0" "k1 = 0" using in5 round_counts by fastforce+
  note in5 = in5 [unfolded k]
  show ?thesis
    using in5 rounds_unmutated(1) [OF round_outputs_good(1) [OF wt in5(1)] in5(2)]
      rounds_unmutated(2) [OF round_outputs_good(2) [OF wt in5(2)] in5(3)]
      rounds_unmutated(3) [OF round_outputs_good(3) [OF wt in5(3)] in5(4)]
      rounds_unmutated(4) [OF round_outputs_good(4) [OF wt in5(4)] in5(5)]
    by (simp add: run_rounds_def round1_unmutated Let_def split: sum.split)
qed

lemma caller_contract_unmutated: "caller_contract mb ids t (unmutated cfg) = caller_contract mb ids t cfg"
  by (simp add: caller_contract_def)

lemma run_honest_unmutated [simp]: "run_honest ids (unmutated cfg) = run_honest ids cfg"
  by (simp add: run_honest_def)

lemma reject_run_unmutated: "reject_run lib (unmutated cfg) el obs w x res = reject_run lib cfg el obs w x res"
  by (cases x) (simp add: reject_run_def fail_extra_def honest_only_def Let_def)

lemma judge_blocks_unmutated: "judge_blocks al snap (unmutated cfg) cc i xs = judge_blocks al snap cfg cc i xs"
  by (induction al snap cfg cc i xs rule: judge_blocks.induct) (auto split: option.splits)

lemma judge_run_unmutated: "judge_run al snap (unmutated cfg) obs w res = judge_run al snap cfg obs w res"
  by (simp add: judge_run_def judge_blocks_unmutated make_request_def split: option.split)

lemma applied_fields:
  "rr_mutations_applied (reject_run lib cfg el obs w x res) = rr_mutations_applied res"
  "rr_mutations_applied (close_run lib el obs w res) = rr_mutations_applied res"
  by (cases x, simp_all add: reject_run_def close_run_def fail_def Let_def)

lemma session_run_applied:
  assumes "session_contract sv cfg se" "rounds_of lib sv cfg se g = (outcome, k, w)"
    and "session_run lib al sv cfg elapsed se g = (Some res, se', g')"
  shows "rr_mutations_applied res = k"
proof (cases outcome)
  case (Inl x)
  from session_run_thrown [OF assms(1) assms(2) [unfolded Inl], of al elapsed] assms(3) show ?thesis
    by (auto simp: applied_fields)
next
  case (Inr sigs)
  from session_run_signed [OF assms(1) assms(2) [unfolded Inr], of al elapsed] assms(3) show ?thesis
    by (auto simp: applied_fields dest!: judge_run_fields(4) [OF sym])
qed

text \<open>C5: a run that reports no applied mutation tested nothing: its result, the session and the
  generator it leaves are those of the same run with every mutation removed.\<close>

theorem zero_applied_is_unmutated_run:
  assumes "well_typed_service sv"
    and "session_run lib al sv cfg elapsed se g = (Some res, se', g')" and "rr_mutations_applied res = 0"
  shows "session_run lib al sv (unmutated cfg) elapsed se g = (Some res, se', g')"
proof (cases "session_contract sv cfg se")
  case False
  then have "run_guards (sv_MAX_BLOCKS_TO_SIGN sv) (se_ids se) (s_t (se_snap se)) (unmutated cfg)
      = run_guards (sv_MAX_BLOCKS_TO_SIGN sv) (se_ids se) (s_t (se_snap se)) cfg"
    by (simp add: run_guards_def Let_def split: option.split)
  moreover obtain d where "run_guards (sv_MAX_BLOCKS_TO_SIGN sv) (se_ids se) (s_t (se_snap se)) cfg = Some d"
    using False run_guards_None by (metis not_None_eq)
  ultimately show ?thesis using assms(2) by (simp add: session_run_def)
next
  case True
  obtain outcome k w where r: "rounds_of lib sv cfg se g = (outcome, k, w)" by (metis prod.collapse)
  have k: "k = 0" using session_run_applied [OF True r assms(2)] assms(3) by simp
  have w: "run_world lib sv se (unmutated cfg) g = run_world lib sv se cfg g" by (simp add: run_world_def)
  have ru: "rounds_of lib sv (unmutated cfg) se g = (outcome, 0, w)"
    using run_rounds_unmutated [OF assms(1)] r k by (simp add: rounds_of_def w)
  have cu: "session_contract sv (unmutated cfg) se" using True by (simp add: caller_contract_unmutated)
  show ?thesis
  proof (cases outcome)
    case (Inl x)
    show ?thesis
      using session_run_thrown [OF True r [unfolded Inl], of al elapsed]
        session_run_thrown [OF cu ru [unfolded Inl], of al elapsed] assms(2) k
      by (simp add: reject_run_unmutated)
  next
    case (Inr sigs)
    show ?thesis
      using session_run_signed [OF True r [unfolded Inr], of al elapsed]
        session_run_signed [OF cu ru [unfolded Inr], of al elapsed] assms(2) k
      by (simp add: judge_run_unmutated)
  qed
qed

lemma toy_well_typed: "well_typed_service toy_service"
  by (auto simp: well_typed_service_def toy_service_def toy_with_record_def toy_throw_def list_all_iff good_si_def
      good_request_def good_responses_def good_deltas_def good_response_def sample_request_def sample_responses_def
      sample_deltas_def map_good_def om_ok_def split: sum.splits prod.splits if_splits)

text \<open>The same attack on a block that does not exist.\<close>

definition toy_miss :: run_config where
  "toy_miss = toy_attack\<lparr>rc_mutations := map (\<lambda>m. m\<lparr>m_block := 9\<rparr>) (rc_mutations toy_attack)\<rparr>"

theorem zero_applied_is_unmutated_run_witness:
  "rc_mutations toy_miss \<noteq> []
   \<and> session_run toy_lib toy_algebra toy_service (unmutated toy_miss) 7 toy_session g_state_init
       = session_run toy_lib toy_algebra toy_service toy_miss 7 toy_session g_state_init"
proof -
  let ?r = "session_run toy_lib toy_algebra toy_service toy_miss 7 toy_session g_state_init"
  have "map_option rr_mutations_applied (fst ?r) = Some 0" by code_simp
  then obtain res where res: "fst ?r = Some res" "rr_mutations_applied res = 0" by auto
  then have "?r = (Some res, fst (snd ?r), snd (snd ?r))" by (simp add: prod_eq_iff)
  from zero_applied_is_unmutated_run [OF toy_well_typed this res(2)] this show ?thesis
    by (simp add: toy_miss_def toy_attack_def)
qed

section \<open>How many mutations a run can apply\<close>

lemma view_le: "fst (view cfg r app wire v) \<le> (if v \<in> set (rc_malicious_ids cfg) then 0 else 1)"
  by (auto simp: view_def split: option.splits prod.splits)

lemma sum_view_le:
  "sum_list (map (fst \<circ> view cfg r app wire) (run_signers ids cfg)) \<le> length (run_honest ids cfg)"
proof -
  have "sum_list (map (fst \<circ> view cfg r app wire) xs) \<le> length (filter (\<lambda>i. i \<notin> set (rc_malicious_ids cfg)) xs)" for xs
  proof (induction xs)
    case (Cons x xs)
    with view_le [of cfg r app wire x] show ?case by (auto split: if_splits)
  qed simp
  then show ?thesis by (simp add: run_honest_def)
qed

lemma round_counts_le:
  "round1 sv key s cfg w = (r1, k', w') \<Longrightarrow> k' = 0"
  "round2 sv (run_signers ids cfg) cfg q k w = (r2, k', w') \<Longrightarrow> k' \<le> k + length (run_honest ids cfg)"
  "round3 sv (run_signers ids cfg) cfg x2 k w = (r3, k', w') \<Longrightarrow> k' \<le> k + length (run_honest ids cfg)"
  "round4 sv (run_signers ids cfg) cfg x3 k w = (r4, k', w') \<Longrightarrow> k' \<le> k + length (run_honest ids cfg)"
  "round5 sv ids obs cfg x4 k w = (r5, k', w') \<Longrightarrow> k' \<le> k + 1"
proof -
  show "round1 sv key s cfg w = (r1, k', w') \<Longrightarrow> k' = 0"
    unfolding round1_def by (drule run_round_count) (simp add: comp_def)
  show "round2 sv (run_signers ids cfg) cfg q k w = (r2, k', w') \<Longrightarrow> k' \<le> k + length (run_honest ids cfg)"
    unfolding round2_def view_r1_def using sum_view_le [of cfg 1 apply_r1 q ids] by (fastforce dest: run_round_count)
  show "round3 sv (run_signers ids cfg) cfg x2 k w = (r3, k', w') \<Longrightarrow> k' \<le> k + length (run_honest ids cfg)"
    unfolding round3_def view_r2_def using sum_view_le [of cfg 2 apply_r2 x2 ids] by (fastforce dest: run_round_count)
  show "round4 sv (run_signers ids cfg) cfg x3 k w = (r4, k', w') \<Longrightarrow> k' \<le> k + length (run_honest ids cfg)"
    unfolding round4_def view_r3_def using sum_view_le [of cfg 3 apply_r3 x3 ids] by (fastforce dest: run_round_count)
  show "round5 sv ids obs cfg x4 k w = (r5, k', w') \<Longrightarrow> k' \<le> k + 1"
    using view_le [of cfg 4 "\<lambda>m sis victim. apply_r4 m sis victim ids (run_signers ids cfg)" x4 obs]
    by (auto simp: round5_def view_r4_def split: prod.splits if_splits)
qed

text \<open>Each of the first three wire rounds reaches every honest signer at most once and the last one
  only the observer, so a run applies at most three mutations per honest signer and one more.\<close>

theorem mutations_applied_bound:
  assumes "session_run lib al sv cfg elapsed se g = (Some res, se', g')"
  shows "rr_mutations_applied res \<le> 3 * length (run_honest (se_ids se) cfg) + 1"
proof (cases "session_contract sv cfg se")
  case False
  from session_run_guarded [OF False, of lib al elapsed g] obtain d where
    "session_run lib al sv cfg elapsed se g = (Some (run_result_default\<lparr>rr_v := HARNESS_FAULT, rr_detail := d\<rparr>), se, g)" .
  with assms have "res = run_result_default\<lparr>rr_v := HARNESS_FAULT, rr_detail := d\<rparr>" by simp
  then show ?thesis by (simp add: run_result_default_def)
next
  case True
  obtain outcome k w where r: "rounds_of lib sv cfg se g = (outcome, k, w)" by (metis prod.collapse)
  have "k \<le> 3 * length (run_honest (se_ids se) cfg) + 1"
    using r unfolding rounds_of_def
    by (cases rule: run_rounds_cases) (auto dest!: round_counts_le)
  then show ?thesis using session_run_applied [OF True r assms] by simp
qed

theorem mutations_applied_bound_witness:
  "\<exists>res se' g'. session_run toy_lib toy_algebra toy_service toy_attack 7 toy_session g_state_init = (Some res, se', g')
     \<and> rr_mutations_applied res \<le> 4"
proof -
  let ?r = "session_run toy_lib toy_algebra toy_service toy_attack 7 toy_session g_state_init"
  have "fst ?r \<noteq> None" by code_simp
  then obtain res where "?r = (Some res, fst (snd ?r), snd (snd ?r))" by (auto simp: prod_eq_iff)
  moreover have "length (run_honest (se_ids toy_session) toy_attack) = 1" by code_simp
  ultimately show ?thesis using mutations_applied_bound [of toy_lib toy_algebra toy_service toy_attack 7] by fastforce
qed

end
