(* ===== verification/Driver_Repeat.thy ===== *)
theory Driver_Repeat
  imports Driver
begin

text \<open>
  Repeating runs of the driver: a run leaves the key stores of its session as they were, and a run is
  reproducible, because every run reseeds the generator. The generator keeps a stale output block
  across a reseed; \<open>rng_sim\<close> relates two generator states that differ in such a block only, the locale
  \<open>call_simulation\<close> lifts a relation that single calls respect to whole rounds, and the draws of the
  generator itself are its instance.
\<close>

section \<open>Relations that calls respect\<close>

locale call_simulation =
  fixes R :: "'w \<Rightarrow> 'w \<Rightarrow> bool"
    and call :: "u64 \<Rightarrow> 'i \<Rightarrow> 'w \<Rightarrow> (exn + 'o) \<times> 'w"
  assumes call_sim: "R w v \<Longrightarrow> fst (call pid inp w) = fst (call pid inp v)
    \<and> R (snd (call pid inp w)) (snd (call pid inp v))"
begin

lemma round_sim:
  "R w v \<Longrightarrow> fst (run_round vw call ids outs k w) = fst (run_round vw call ids outs k v)
     \<and> fst (snd (run_round vw call ids outs k w)) = fst (snd (run_round vw call ids outs k v))
     \<and> R (snd (snd (run_round vw call ids outs k w))) (snd (snd (run_round vw call ids outs k v)))"
proof (induction ids arbitrary: outs k w v)
  case (Cons pid ids)
  obtain d inp where dv: "vw pid = (d, inp)" by fastforce
  obtain q w1 where cw: "call pid inp w = (q, w1)" by fastforce
  obtain q' v1 where cv: "call pid inp v = (q', v1)" by fastforce
  have s: "q = q'" "R w1 v1" using call_sim [OF Cons.prems, of pid inp] cw cv by auto
  show ?case
    using Cons.IH [OF s(2)] s dv cw cv by (simp add: run_round.simps(2) split: sum.split)
qed simp

end

section \<open>The stale block of the generator\<close>

definition rng_sim :: "drbg_state \<Rightarrow> drbg_state \<Rightarrow> bool" where
  "rng_sim g h \<longleftrightarrow> d_key g = d_key h \<and> d_counter g = d_counter h \<and> d_block_used g = d_block_used h
     \<and> d_drawn g = d_drawn h \<and> d_seeded g = d_seeded h \<and> (d_block_used g < 64 \<longrightarrow> d_block g = d_block h)"

lemma rng_sim_refl [simp]: "rng_sim g g"
  by (simp add: rng_sim_def)

lemma rng_sim_reseed: "rng_sim (reseed_with_label sha seed label g) (reseed_with_label sha seed label h)"
  by (simp add: rng_sim_def reseed_with_label_def Let_def)

lemma det_bytes_loop_sim:
  assumes "rng_sim g h"
  shows "fst (det_bytes_loop sha n g) = fst (det_bytes_loop sha n h)
    \<and> rng_sim (snd (det_bytes_loop sha n g)) (snd (det_bytes_loop sha n h))"
proof (cases "n = 0 \<or> d_block_used g < 64")
  case True
  have "g = h" if "d_block_used g < 64" using that assms by (intro drbg_state.equality) (simp_all add: rng_sim_def)
  with True assms show ?thesis by (auto simp: det_bytes_loop.simps [of sha 0])
next
  case False
  have "refill sha g = refill sha h"
    using assms by (intro drbg_state.equality) (simp_all add: rng_sim_def refill_def)
  moreover have "d_block_used g = d_block_used h" using assms by (simp add: rng_sim_def)
  ultimately show ?thesis using False by (simp add: det_bytes_loop.simps [of sha n])
qed

lemma det_bytes_sim:
  assumes "rng_sim g h"
  shows "fst (det_bytes sha num g) = fst (det_bytes sha num h)
    \<and> fst (snd (det_bytes sha num g)) = fst (snd (det_bytes sha num h))
    \<and> rng_sim (snd (snd (det_bytes sha num g))) (snd (snd (det_bytes sha num h)))"
proof -
  have "d_seeded g = d_seeded h" using assms by (simp add: rng_sim_def)
  then show ?thesis
    using det_bytes_loop_sim [OF assms, of sha "nat num"] assms by (simp add: det_bytes_def case_prod_beta)
qed

text \<open>Drawing bytes respects the relation.\<close>

interpretation draw_sim: call_simulation rng_sim
  "\<lambda>pid num g. (Inr (fst (det_bytes sha num g), fst (snd (det_bytes sha num g))), snd (snd (det_bytes sha num g)))"
  by unfold_locales (simp add: det_bytes_sim)

section \<open>The relation on worlds\<close>

definition env_sim :: "('l, 'pp, 'ps, 'rp, 'rs) player_env \<Rightarrow> ('l, 'pp, 'ps, 'rp, 'rs) player_env \<Rightarrow> bool" where
  "env_sim e f \<longleftrightarrow> pe_platform e = pe_platform f \<and> pe_keys e = pe_keys f \<and> pe_store e = pe_store f
     \<and> pe_service e = pe_service f \<and> rng_sim (pe_rng e) (pe_rng f)"

definition world_sim :: "('l, 'pp, 'ps, 'rp, 'rs) world \<Rightarrow> ('l, 'pp, 'ps, 'rp, 'rs) world \<Rightarrow> bool" where
  "world_sim w v \<longleftrightarrow> w_key_stores w = w_key_stores v \<and> w_players w = w_players v \<and> rng_sim (w_rng w) (w_rng v)"

text \<open>
  A service that sees the generator only through the bytes it is given: on environments that differ
  in a stale block it returns the same and leaves environments that differ in a stale block.
\<close>

definition blind_call :: "('l, 'pp, 'ps, 'rp, 'rs, 'o) service_call \<Rightarrow> bool" where
  "blind_call f \<longleftrightarrow> (\<forall>e e'. env_sim e e' \<longrightarrow> fst (f e) = fst (f e') \<and> env_sim (snd (f e)) (snd (f e')))"

definition stream_only :: "('l, 'pp, 'ps, 'rp, 'rs) cmp_service \<Rightarrow> bool" where
  "stream_only sv \<longleftrightarrow> (\<forall>a b c d f g h. blind_call (sv_start_signing sv a b c d f g h))
     \<and> (\<forall>a b c. blind_call (sv_mta_response sv a b c)) \<and> (\<forall>a b. blind_call (sv_mta_verify sv a b))
     \<and> (\<forall>a b. blind_call (sv_get_si sv a b)) \<and> (\<forall>a b. blind_call (sv_get_cmp_signature sv a b))"

lemma call_player_sim:
  assumes "blind_call f" "world_sim w v"
  shows "fst (call_player pid f w) = fst (call_player pid f v)
    \<and> world_sim (snd (call_player pid f w)) (snd (call_player pid f v))"
proof (cases "om_find (w_players w) pid")
  case None
  with assms(2) show ?thesis by (simp add: call_player_def world_sim_def)
next
  case (Some ctx)
  have "env_sim (env_of w pid ctx) (env_of v pid ctx)" using assms(2) by (simp add: env_sim_def env_of_def world_sim_def)
  with assms(1) have "fst (f (env_of w pid ctx)) = fst (f (env_of v pid ctx))"
    "env_sim (snd (f (env_of w pid ctx))) (snd (f (env_of v pid ctx)))" by (auto simp: blind_call_def)
  with Some assms(2) show ?thesis
    by (simp add: call_player_def world_sim_def env_sim_def put_env_def case_prod_beta)
qed

lemma player_call_simulation:
  "(\<And>inp. blind_call (f inp)) \<Longrightarrow> call_simulation world_sim (\<lambda>pid inp. call_player pid (f inp))"
  by unfold_locales (rule call_player_sim)

definition sim3 :: "'r \<times> nat \<times> ('l, 'pp, 'ps, 'rp, 'rs) world \<Rightarrow> 'r \<times> nat \<times> ('l, 'pp, 'ps, 'rp, 'rs) world \<Rightarrow> bool" where
  "sim3 p q \<longleftrightarrow> fst p = fst q \<and> fst (snd p) = fst (snd q) \<and> world_sim (snd (snd p)) (snd (snd q))"

lemma round_sims:
  assumes "stream_only sv" "world_sim w v"
  shows "sim3 (round1 sv key s cfg w) (round1 sv key s cfg v)"
    "sim3 (round2 sv s cfg q k w) (round2 sv s cfg q k v)"
    "sim3 (round3 sv s cfg x2 k w) (round3 sv s cfg x2 k v)"
    "sim3 (round4 sv s cfg x3 k w) (round4 sv s cfg x3 k v)"
    "sim3 (round5 sv ids obs cfg x4 k w) (round5 sv ids obs cfg x4 k v)"
proof -
  note so = assms(1) [unfolded stream_only_def]
  show "sim3 (round1 sv key s cfg w) (round1 sv key s cfg v)"
    unfolding round1_def sim3_def
    by (rule call_simulation.round_sim [OF player_call_simulation assms(2)]) (use so in blast)
  show "sim3 (round2 sv s cfg q k w) (round2 sv s cfg q k v)"
    unfolding round2_def sim3_def
    by (rule call_simulation.round_sim [OF player_call_simulation assms(2)]) (use so in blast)
  show "sim3 (round3 sv s cfg x2 k w) (round3 sv s cfg x2 k v)"
    unfolding round3_def sim3_def
    by (rule call_simulation.round_sim [OF player_call_simulation assms(2)]) (use so in blast)
  show "sim3 (round4 sv s cfg x3 k w) (round4 sv s cfg x3 k v)"
    unfolding round4_def sim3_def
    by (rule call_simulation.round_sim [OF player_call_simulation assms(2)]) (use so in blast)
  have "blind_call (sv_get_cmp_signature sv a b)" for a b using so by blast
  from call_player_sim [OF this assms(2)] show "sim3 (round5 sv ids obs cfg x4 k w) (round5 sv ids obs cfg x4 k v)"
    by (simp add: round5_def sim3_def case_prod_beta)
qed

lemma sim3_then:
  assumes "sim3 p q" and "\<And>y k w v. world_sim w v \<Longrightarrow> sim3 (f y k w) (f y k v)"
  shows "sim3 (case p of (Inl x, k, w) \<Rightarrow> (Inl (i, x), k, w) | (Inr y, k, w) \<Rightarrow> f y k w)
              (case q of (Inl x, k, w) \<Rightarrow> (Inl (i, x), k, w) | (Inr y, k, w) \<Rightarrow> f y k w)"
proof -
  obtain r k w where p: "p = (r, k, w)" by (metis prod.collapse)
  obtain r' k' v where q: "q = (r', k', v)" by (metis prod.collapse)
  show ?thesis using assms by (cases r) (auto simp: p q sim3_def)
qed

lemma run_rounds_sim:
  assumes "stream_only sv" "world_sim w v"
  shows "sim3 (run_rounds sv key ids obs cfg w) (run_rounds sv key ids obs cfg v)"
  unfolding run_rounds_def Let_def
  by (intro sim3_then round_sims assms) (simp_all add: sim3_def assms)

text \<open>C17: a run does not depend on what was drawn before it: from any two states of the generator, the
  same configuration on the same session gives the same result and the same key stores, for a
  service that sees the generator only through the bytes it draws.\<close>

theorem run_independent_of_previous_draws:
  assumes "stream_only sv"
  shows "fst (session_run lib al sv cfg elapsed se g) = fst (session_run lib al sv cfg elapsed se h)
    \<and> fst (snd (session_run lib al sv cfg elapsed se g)) = fst (snd (session_run lib al sv cfg elapsed se h))"
proof (cases "session_contract sv cfg se")
  case False
  then obtain d where "run_guards (sv_MAX_BLOCKS_TO_SIGN sv) (se_ids se) (s_t (se_snap se)) cfg = Some d"
    using run_guards_None by (metis not_None_eq)
  then show ?thesis by (simp add: session_run_def)
next
  case True
  have "world_sim (run_world lib sv se cfg g) (run_world lib sv se cfg h)"
    by (simp add: world_sim_def run_world_def rng_sim_reseed)
  then have s: "sim3 (rounds_of lib sv cfg se g) (rounds_of lib sv cfg se h)"
    unfolding rounds_of_def by (rule run_rounds_sim [OF assms])
  obtain r k w where g: "rounds_of lib sv cfg se g = (r, k, w)" by (metis prod.collapse)
  obtain r' k' v where h': "rounds_of lib sv cfg se h = (r', k', v)" by (metis prod.collapse)
  from s g h' have h: "rounds_of lib sv cfg se h = (r, k, v)" and wv: "world_sim w v" by (simp_all add: sim3_def)
  have eq: "w_key_stores w = w_key_stores v" "record_present w = record_present v"
    using wv by (simp_all add: world_sim_def record_present_def fun_eq_iff)
  have c: "close_run lib elapsed obs w res = close_run lib elapsed obs v res"
    "reject_run lib cfg elapsed obs w x res = reject_run lib cfg elapsed obs v x res"
    "judge_run al snap cfg obs w res = judge_run al snap cfg obs v res" for obs res x snap
    by (simp_all add: close_run_def reject_run_def judge_run_def eq)
  show ?thesis
  proof (cases r)
    case (Inl x)
    show ?thesis
      unfolding session_run_thrown [OF True g [unfolded Inl]] session_run_thrown [OF True h [unfolded Inl]]
      by (simp add: eq c)
  next
    case (Inr sigs)
    show ?thesis
      unfolding session_run_signed [OF True g [unfolded Inr]] session_run_signed [OF True h [unfolded Inr]]
      by (simp add: eq c)
  qed
qed

lemma toy_stream_only: "stream_only toy_service"
  by (auto simp: stream_only_def blind_call_def env_sim_def toy_service_def toy_with_record_def
      split: sum.splits prod.splits)

theorem run_independent_of_previous_draws_witness:
  "fst (session_run toy_lib toy_algebra toy_service toy_config 7 toy_session g_state_init)
   = fst (session_run toy_lib toy_algebra toy_service toy_config 7 toy_session
       (snd (det_bytes_loop (pad 64) 100 (reseed (pad 64) 3 g_state_init))))"
  using run_independent_of_previous_draws [OF toy_stream_only] by blast

section \<open>The key stores of a session\<close>

text \<open>Every fixture player has a key store, from the construction of the session on.\<close>

definition session_stores :: "('pp, 'ps, 'rp, 'rs) session \<Rightarrow> bool" where
  "session_stores se \<longleftrightarrow> om_ok (se_key_stores se) \<and> (\<forall>pid\<in>set (se_ids se). om_find (se_key_stores se) pid \<noteq> None)"

lemma foldl_emplace:
  "om_ok m \<Longrightarrow> om_ok (foldl (\<lambda>m pid. om_emplace pid (f pid) m) m ids)
     \<and> (\<forall>k. om_find (foldl (\<lambda>m pid. om_emplace pid (f pid) m) m ids) k \<noteq> None
          \<longleftrightarrow> k \<in> set ids \<or> om_find m k \<noteq> None)"
  by (induction ids arbitrary: m) (auto simp: om_ok_emplace om_emplace_find)

lemma install_keys_stores:
  "om_ok stores \<Longrightarrow> om_ok (snd (install_keys lib key_id alg md ps stores))
     \<and> (\<forall>k. om_find (snd (install_keys lib key_id alg md ps stores)) k \<noteq> None \<longleftrightarrow> om_find stores k \<noteq> None)"
proof (induction ps arbitrary: stores)
  case (Cons p ps)
  then show ?case
    by (auto simp: Let_def store_simps split: option.splits)
qed simp

lemma install_snapshot_stores:
  assumes "om_ok stores"
  shows "om_ok (snd (install_snapshot lib s key_id stores))
     \<and> (\<forall>k. om_find (snd (install_snapshot lib s key_id stores)) k \<noteq> None \<longleftrightarrow> om_find stores k \<noteq> None)"
  using assms install_keys_stores [OF assms]
  by (simp add: install_snapshot_def split: option.split sum.split)

lemma session_new_stores:
  fixes lib :: "('pp, 'ps, 'rp, 'rs) setup_lib"
  shows "session_stores (snd (session_new lib snap key_id))"
proof -
  let ?st = "foldl (\<lambda>m pid. om_emplace pid [] m) [] (player_ids snap)
    :: (u64, ('pp, 'ps, 'rp, 'rs) det_key_persistency) omap"
  have 1: "om_ok ?st \<and> (\<forall>k. om_find ?st k \<noteq> None \<longleftrightarrow> k \<in> set (player_ids snap))"
    using foldl_emplace [of "[]" "\<lambda>_. []" "player_ids snap"] by simp
  from 1 install_snapshot_stores [of ?st lib snap key_id] show ?thesis
    by (simp add: session_stores_def session_new_def Let_def case_prod_beta)
qed

lemma make_players_keys:
  "om_ok (make_players sv ids)" "om_find (make_players sv ids) k \<noteq> None \<longleftrightarrow> k \<in> set ids"
  using foldl_emplace [of "[]" "player_ctx_new sv" ids] by (auto simp: make_players_def)

text \<open>An invariant of the world that every call of the service keeps is kept by the five rounds.\<close>

definition service_keeps :: "('l, 'pp, 'ps, 'rp, 'rs) cmp_service \<Rightarrow> (('l, 'pp, 'ps, 'rp, 'rs) world \<Rightarrow> bool) \<Rightarrow> bool" where
  "service_keeps sv I \<longleftrightarrow> (\<forall>pid w. I w \<longrightarrow>
     (\<forall>a b c d f g h. I (snd (call_player pid (sv_start_signing sv a b c d f g h) w)))
     \<and> (\<forall>a b c. I (snd (call_player pid (sv_mta_response sv a b c) w)))
     \<and> (\<forall>a b. I (snd (call_player pid (sv_mta_verify sv a b) w)))
     \<and> (\<forall>a b. I (snd (call_player pid (sv_get_si sv a b) w)))
     \<and> (\<forall>a b. I (snd (call_player pid (sv_get_cmp_signature sv a b) w))))"

lemma round_keeps:
  assumes "service_keeps sv I" "I w"
  shows "round1 sv key s cfg w = (r1, k', w') \<Longrightarrow> I w'"
    "round2 sv s cfg q k w = (r2, k', w') \<Longrightarrow> I w'"
    "round3 sv s cfg x2 k w = (r3, k', w') \<Longrightarrow> I w'"
    "round4 sv s cfg x3 k w = (r4, k', w') \<Longrightarrow> I w'"
    "round5 sv ids obs cfg x4 k w = (r5, k', w') \<Longrightarrow> I w'"
proof -
  note sk = assms(1) [unfolded service_keeps_def, rule_format]
  show "round1 sv key s cfg w = (r1, k', w') \<Longrightarrow> I w'"
    unfolding round1_def by (erule run_round_invariant [where I = I, rotated 2]) (metis sk snd_conv, rule assms(2))
  show "round2 sv s cfg q k w = (r2, k', w') \<Longrightarrow> I w'"
    unfolding round2_def by (erule run_round_invariant [where I = I, rotated 2]) (metis sk snd_conv, rule assms(2))
  show "round3 sv s cfg x2 k w = (r3, k', w') \<Longrightarrow> I w'"
    unfolding round3_def by (erule run_round_invariant [where I = I, rotated 2]) (metis sk snd_conv, rule assms(2))
  show "round4 sv s cfg x3 k w = (r4, k', w') \<Longrightarrow> I w'"
    unfolding round4_def by (erule run_round_invariant [where I = I, rotated 2]) (metis sk snd_conv, rule assms(2))
  show "round5 sv ids obs cfg x4 k w = (r5, k', w') \<Longrightarrow> I w'"
    using sk [OF assms(2)] by (auto simp: round5_def case_prod_beta)
qed

lemma run_rounds_keeps:
  assumes "service_keeps sv I" "I w" "run_rounds sv key ids obs cfg w = (outcome, k, w')"
  shows "I w'"
  using assms(3)
proof (cases rule: run_rounds_cases)
  case (in1 x)
  show ?thesis by (rule round_keeps(1) [OF assms(1,2) in1(1)])
next
  case (in2 q k1 w1 x)
  show ?thesis by (rule round_keeps(2) [OF assms(1) round_keeps(1) [OF assms(1,2) in2(1)] in2(2)])
next
  case (in3 q k1 w1 x2 k2 w2 x)
  show ?thesis
    by (rule round_keeps(3) [OF assms(1) round_keeps(2) [OF assms(1) round_keeps(1) [OF assms(1,2) in3(1)] in3(2)] in3(3)])
next
  case (in4 q k1 w1 x2 k2 w2 x3 k3 w3 x)
  note w2 = round_keeps(2) [OF assms(1) round_keeps(1) [OF assms(1,2) in4(1)] in4(2)]
  show ?thesis by (rule round_keeps(4) [OF assms(1) round_keeps(3) [OF assms(1) w2 in4(3)] in4(4)])
next
  case (in5 q k1 w1 x2 k2 w2 x3 k3 w3 x4 k4 w4 r)
  note w2 = round_keeps(2) [OF assms(1) round_keeps(1) [OF assms(1,2) in5(1)] in5(2)]
  note w4 = round_keeps(4) [OF assms(1) round_keeps(3) [OF assms(1) w2 in5(3)] in5(4)]
  show ?thesis by (rule round_keeps(5) [OF assms(1) w4 in5(5)])
qed

text \<open>The library's view of the key store is the five readers of \<^verbatim>\<open>cmp_key_persistency\<close>: it cannot write.\<close>

definition reads_keys :: "('l, 'pp, 'ps, 'rp, 'rs, 'o) service_call \<Rightarrow> bool" where
  "reads_keys f \<longleftrightarrow> (\<forall>e. pe_keys (snd (f e)) = pe_keys e)"

definition read_only_keys :: "('l, 'pp, 'ps, 'rp, 'rs) cmp_service \<Rightarrow> bool" where
  "read_only_keys sv \<longleftrightarrow> (\<forall>a b c d f g h. reads_keys (sv_start_signing sv a b c d f g h))
     \<and> (\<forall>a b c. reads_keys (sv_mta_response sv a b c)) \<and> (\<forall>a b. reads_keys (sv_mta_verify sv a b))
     \<and> (\<forall>a b. reads_keys (sv_get_si sv a b)) \<and> (\<forall>a b. reads_keys (sv_get_cmp_signature sv a b))"

definition key_inv :: "(u64, ('pp, 'ps, 'rp, 'rs) det_key_persistency) omap \<Rightarrow> ('l, 'pp, 'ps, 'rp, 'rs) world \<Rightarrow> bool" where
  "key_inv S w \<longleftrightarrow> w_key_stores w = S \<and> om_ok S \<and> om_ok (w_players w)
     \<and> (\<forall>pid. om_find (w_players w) pid \<noteq> None \<longrightarrow> om_find S pid \<noteq> None)"

lemma call_player_key_inv:
  assumes "reads_keys f" "key_inv S w"
  shows "key_inv S (snd (call_player pid f w))"
proof (cases "om_find (w_players w) pid")
  case None
  with assms(2) show ?thesis by (simp add: call_player_def)
next
  case (Some ctx)
  with assms(2) obtain ks where ks: "om_find S pid = Some ks" by (auto simp: key_inv_def)
  have "pe_keys (snd (f (env_of w pid ctx))) = ks"
    using assms ks by (simp add: reads_keys_def env_of_def key_inv_def key_store_at_def)
  then show ?thesis
    using assms(2) Some ks om.put_same [of S pid ks]
    by (auto simp: call_player_def key_inv_def put_env_def case_prod_beta store_simps)
qed

lemma read_only_keeps: "read_only_keys sv \<Longrightarrow> service_keeps sv (key_inv S)"
  unfolding service_keeps_def read_only_keys_def by (blast intro: call_player_key_inv)

text \<open>C19: on a session as its constructor makes it, with a library that only reads key stores, a run
  leaves the session exactly as it was, whatever it ends with, and its result reports the key store
  unchanged, so it is never blamed for a changed key store.\<close>

theorem run_leaves_session_unchanged:
  assumes "read_only_keys sv" and "se = snd (session_new lib snap key_id)"
    and "session_run lib al sv cfg elapsed se g = (r, se', g')"
  shows "se' = se \<and> (\<forall>res. r = Some res \<longrightarrow> rr_key_store_unchanged res)"
proof (cases "session_contract sv cfg se")
  case False
  from session_run_guarded [OF False, of lib al elapsed g] obtain d where
    "session_run lib al sv cfg elapsed se g = (Some (run_result_default\<lparr>rr_v := HARNESS_FAULT, rr_detail := d\<rparr>), se, g)" .
  with assms(3) show ?thesis by (auto simp: run_result_default_def)
next
  case True
  obtain x k w where x: "rounds_of lib sv cfg se g = (x, k, w)" by (metis prod.collapse)
  have "session_stores se" unfolding assms(2) by (rule session_new_stores)
  then have inv: "key_inv (se_key_stores se) (run_world lib sv se cfg g)"
    using make_players_keys [of sv "se_ids se"] by (auto simp: key_inv_def run_world_def session_stores_def)
  have w: "w_key_stores w = se_key_stores se"
    using run_rounds_keeps [OF read_only_keeps [OF assms(1)] inv x [unfolded rounds_of_def]] by (simp add: key_inv_def)
  show ?thesis
  proof (cases x)
    case (Inl y)
    show ?thesis
      using session_run_thrown [OF True x [unfolded Inl], of al elapsed] assms(3) w
      by (cases y) (auto simp: reject_run_def close_run_def run_start_def fail_def Let_def)
  next
    case (Inr sigs)
    have "rr_key_store_unchanged q" if "judge_run al snap cfg obs w (close_run lib elapsed obs w
        ((run_start lib se obs)\<lparr>rr_mutations_applied := k, rr_sigs := sigs, rr_signature_produced := True\<rparr>)) = Some q"
      for q obs snap
      using that w
      by (auto simp: judge_run_def close_run_def run_start_def Let_def split: if_splits option.splits)
    then show ?thesis
      using session_run_signed [OF True x [unfolded Inr], of al elapsed] assms(3) w by auto
  qed
qed

lemma toy_read_only: "read_only_keys toy_service"
  by (auto simp: read_only_keys_def reads_keys_def toy_service_def toy_with_record_def split: sum.splits prod.splits)

theorem run_leaves_session_unchanged_witness:
  "\<exists>r g'. session_run toy_lib toy_algebra toy_service toy_attack 7 (snd (session_new toy_lib toy_fixture ''k'')) g_state_init
     = (r, snd (session_new toy_lib toy_fixture ''k''), g')"
proof -
  obtain r se' g' where e: "session_run toy_lib toy_algebra toy_service toy_attack 7
      (snd (session_new toy_lib toy_fixture ''k'')) g_state_init = (r, se', g')" by (metis prod.collapse)
  from run_leaves_session_unchanged [OF toy_read_only refl e] e show ?thesis by auto
qed

end
