(* ===== verification/Dual_Session.thy ===== *)
theory Dual_Session
  imports Driver_Repeat
begin

unbundle bit_operations_syntax

text \<open>
  Two signing ceremonies interleaved over the same players,
  \<^verbatim>\<open>src/harness/cmp_ecdsa_online/src/dual_session.cpp\<close>: the resumable ceremony that advances one
  round per step, the scheduler loop that hands out turns from a byte schedule, the fingerprint that
  detects one ceremony touching the other's record, and the oracles over both results. What the scheduler
  does and what its findings mean is shown in \<open>Dual_Interleaving\<close> and \<open>Dual_Oracles\<close>.
\<close>

section \<open>Data\<close>

datatype ceremony_state = PENDING | RUNNING | COMPLETED | REJECTED | FAULTED

fun ceremony_state_name :: "ceremony_state \<Rightarrow> string" where
  "ceremony_state_name PENDING = ''PENDING''"
| "ceremony_state_name RUNNING = ''RUNNING''"
| "ceremony_state_name COMPLETED = ''COMPLETED''"
| "ceremony_state_name REJECTED = ''REJECTED''"
| "ceremony_state_name FAULTED = ''FAULTED''"

record ceremony_report =
  cr_state :: ceremony_state
  cr_rounds_completed :: nat
  cr_signature_produced :: bool
  cr_exception_type :: string
  cr_detail :: string

record dual_oracle_observation =
  ob_both_completed :: bool
  ob_signatures_observed :: bool
  ob_signature_a_valid :: bool
  ob_signature_b_valid :: bool
  ob_cross_ab :: bool
  ob_cross_ba :: bool
  ob_messages_distinct :: bool
  ob_nonce_equal :: bool
  ob_other_records_unchanged :: bool
  ob_rollback_a_clean :: bool
  ob_rollback_b_clean :: bool
  ob_key_stores_unchanged :: bool
  ob_harness_fault :: bool

record dual_oracle_verdict =
  ov_signatures_valid :: bool
  ov_cross_session_verification :: bool
  ov_nonce_reuse :: bool
  ov_state_isolation :: bool
  ov_rollback_clean :: bool
  ov_key_store_unchanged :: bool
  ov_harness_fault :: bool

definition evaluate_dual_oracles :: "dual_oracle_observation \<Rightarrow> dual_oracle_verdict" where
  "evaluate_dual_oracles o' = \<lparr>
     ov_signatures_valid = (ob_signatures_observed o' \<and> ob_signature_a_valid o' \<and> ob_signature_b_valid o'),
     ov_cross_session_verification = (ob_signatures_observed o' \<and> (ob_cross_ab o' \<or> ob_cross_ba o')),
     ov_nonce_reuse = (ob_signatures_observed o' \<and> ob_messages_distinct o' \<and> ob_nonce_equal o'),
     ov_state_isolation = ob_other_records_unchanged o',
     ov_rollback_clean = (ob_rollback_a_clean o' \<and> ob_rollback_b_clean o'),
     ov_key_store_unchanged = ob_key_stores_unchanged o',
     ov_harness_fault = (ob_harness_fault o' \<or> (ob_both_completed o' \<and> \<not> ob_signatures_observed o'))\<rparr>"

record dual_result =
  dr_both_completed :: bool
  dr_max_round_reached :: nat
  dr_advanced_past_injection :: nat
  dr_interleave_points :: nat
  dr_signatures_valid :: bool
  dr_cross_session_verification :: bool
  dr_nonce_reuse :: bool
  dr_state_isolation :: bool
  dr_rollback_clean :: bool
  dr_key_store_unchanged :: bool
  dr_harness_fault :: bool
  dr_a :: ceremony_report
  dr_b :: ceremony_report
  dr_schedule :: "byte list"
  dr_elapsed_ms :: u64
  dr_detail :: string

definition ceremony_report_default :: ceremony_report where
  "ceremony_report_default = \<lparr>cr_state = PENDING, cr_rounds_completed = 0, cr_signature_produced = False,
     cr_exception_type = [], cr_detail = []\<rparr>"

definition dual_result_default :: dual_result where
  "dual_result_default = \<lparr>dr_both_completed = False, dr_max_round_reached = 0, dr_advanced_past_injection = 0,
     dr_interleave_points = 0, dr_signatures_valid = False, dr_cross_session_verification = False,
     dr_nonce_reuse = False, dr_state_isolation = True, dr_rollback_clean = True, dr_key_store_unchanged = True,
     dr_harness_fault = False, dr_a = ceremony_report_default, dr_b = ceremony_report_default, dr_schedule = [],
     dr_elapsed_ms = 0, dr_detail = []\<rparr>"

definition any_finding :: "dual_result \<Rightarrow> bool" where
  "any_finding r \<longleftrightarrow> dr_cross_session_verification r \<or> dr_nonce_reuse r \<or> \<not> dr_state_isolation r
     \<or> \<not> dr_rollback_clean r \<or> \<not> dr_key_store_unchanged r \<or> (dr_both_completed r \<and> \<not> dr_signatures_valid r)"

definition semantic_equal_report :: "ceremony_report \<Rightarrow> ceremony_report \<Rightarrow> bool" where
  "semantic_equal_report l r \<longleftrightarrow> cr_state l = cr_state r \<and> cr_rounds_completed l = cr_rounds_completed r
     \<and> cr_signature_produced l = cr_signature_produced r
     \<and> cr_exception_type l = cr_exception_type r \<and> cr_detail l = cr_detail r"

definition semantic_equal :: "dual_result \<Rightarrow> dual_result \<Rightarrow> bool" where
  "semantic_equal l r \<longleftrightarrow> dr_both_completed l = dr_both_completed r
     \<and> dr_max_round_reached l = dr_max_round_reached r
     \<and> dr_advanced_past_injection l = dr_advanced_past_injection r
     \<and> dr_interleave_points l = dr_interleave_points r
     \<and> dr_signatures_valid l = dr_signatures_valid r
     \<and> dr_cross_session_verification l = dr_cross_session_verification r
     \<and> dr_nonce_reuse l = dr_nonce_reuse r
     \<and> dr_state_isolation l = dr_state_isolation r
     \<and> dr_rollback_clean l = dr_rollback_clean r
     \<and> dr_key_store_unchanged l = dr_key_store_unchanged r
     \<and> dr_harness_fault l = dr_harness_fault r
     \<and> semantic_equal_report (dr_a l) (dr_a r) \<and> semantic_equal_report (dr_b l) (dr_b r)
     \<and> dr_schedule l = dr_schedule r \<and> dr_detail l = dr_detail r"

section \<open>A resumable ceremony\<close>

definition dual_guarded :: "exn + 'a \<Rightarrow> call_outcome" where
  "dual_guarded r =
     (let o0 = call_outcome_default in
      case r of
        Inr _ \<Rightarrow> o0
      | Inl (Cosigner_exception w) \<Rightarrow> o0\<lparr>co_threw := True, co_type := ''cosigner_exception'', co_what := w\<rparr>
      | Inl (Out_of_range w) \<Rightarrow> o0\<lparr>co_threw := True, co_fatal := True, co_type := ''std::out_of_range'', co_what := w\<rparr>
      | Inl (Bad_alloc w) \<Rightarrow> o0\<lparr>co_threw := True, co_fatal := True, co_type := ''std::exception'', co_what := w\<rparr>
      | Inl (Std_exception w) \<Rightarrow> o0\<lparr>co_threw := True, co_fatal := True, co_type := ''std::exception'', co_what := w\<rparr>
      | Inl Unknown_exn \<Rightarrow> o0\<lparr>co_threw := True, co_fatal := True, co_type := ''unknown'',
          co_what := ''non-standard exception''\<rparr>)"

definition ceremony_message :: "nat \<Rightarrow> bytes" where
  "ceremony_message which = map (\<lambda>i. of_nat ((if which = 0 then 0xA0 else 0x50) + i)) [0..<32]"

record ceremony =
  ce_key_id :: string
  ce_signers :: "u64 list"
  ce_path :: "u32 list"
  ce_txid :: string
  ce_players_str :: "string list"
  ce_players_ids :: "u64 list"
  ce_data :: signing_data
  ce_chaincode :: bytes
  ce_expected_message :: bytes
  ce_round :: nat
  ce_state :: ceremony_state
  ce_exception_type :: string
  ce_detail :: string
  ce_requests :: r1_wire
  ce_responses :: r2_wire
  ce_deltas :: r3_wire
  ce_sis :: r4_wire
  ce_sigs :: "recoverable_signature list"

definition ceremony_new :: "nat \<Rightarrow> string \<Rightarrow> u64 list \<Rightarrow> u32 list \<Rightarrow> ceremony" where
  "ceremony_new index key_id signers path = \<lparr>ce_key_id = key_id, ce_signers = signers, ce_path = path,
     ce_txid = (if index = 0 then ''opus-dual-tx-a'' else ''opus-dual-tx-b''),
     ce_players_str = std_set (map to_string_u64 signers), ce_players_ids = std_set signers,
     ce_data = \<lparr>si_chaincode = replicate 32 0, si_blocks = [\<lparr>bl_data = ceremony_message index, bl_path = path\<rparr>]\<rparr>,
     ce_chaincode = replicate 32 0, ce_expected_message = ceremony_message index,
     ce_round = 0, ce_state = PENDING, ce_exception_type = [], ce_detail = [],
     ce_requests = [], ce_responses = [], ce_deltas = [], ce_sis = [], ce_sigs = []\<rparr>"

definition finished :: "ceremony \<Rightarrow> bool" where
  "finished c \<longleftrightarrow> ce_state c \<noteq> PENDING \<and> ce_state c \<noteq> RUNNING"

definition report :: "ceremony \<Rightarrow> ceremony_report" where
  "report c = \<lparr>cr_state = ce_state c, cr_rounds_completed = ce_round c, cr_signature_produced = (ce_sigs c \<noteq> []),
     cr_exception_type = ce_exception_type c, cr_detail = ce_detail c\<rparr>"

definition reject :: "call_outcome \<Rightarrow> nat \<Rightarrow> ceremony \<Rightarrow> ceremony" where
  "reject out round c = c\<lparr>ce_state := (if co_fatal out then FAULTED else REJECTED), ce_exception_type := co_type out,
     ce_detail := ''round '' @ dec_of_nat round @ '' threw''\<rparr>"

text \<open>
  What every round does with the outcome of its loop: reject, or keep the outputs and count the
  round. The outputs of the players before a thrower stay in the source's map; a rejected ceremony
  is finished and nothing reads them again.
\<close>

definition end_round :: "nat \<Rightarrow> ('o \<Rightarrow> ceremony \<Rightarrow> ceremony) \<Rightarrow> ceremony \<Rightarrow> ((u64 \<times> exn) + 'o) \<times> nat \<times> 'w
    \<Rightarrow> bool \<times> ceremony \<times> 'w" where
  "end_round n keep c r =
     (case r of
        (Inl (pid, e), k, w) \<Rightarrow> (False, reject (dual_guarded (Inl e :: exn + unit)) n c, w)
      | (Inr outs, k, w) \<Rightarrow> (True, (keep outs c)\<lparr>ce_round := n\<rparr>, w))"

definition ceremony_round1 :: "('l, 'pp, 'ps, 'rp, 'rs) cmp_service \<Rightarrow> ceremony \<Rightarrow> ('l, 'pp, 'ps, 'rp, 'rs) world
    \<Rightarrow> bool \<times> ceremony \<times> ('l, 'pp, 'ps, 'rp, 'rs) world" where
  "ceremony_round1 sv c w = end_round 1 (\<lambda>outs c. c\<lparr>ce_requests := outs\<rparr>) c
     (run_round (\<lambda>_. (0, ())) (\<lambda>pid _. call_player pid
        (sv_start_signing sv (ce_key_id c) (ce_txid c) 0 (ce_data c) [] (ce_players_str c) (ce_players_ids c)))
        (ce_signers c) (ce_requests c) 0 w)"

definition ceremony_round2 :: "('l, 'pp, 'ps, 'rp, 'rs) cmp_service \<Rightarrow> ceremony \<Rightarrow> ('l, 'pp, 'ps, 'rp, 'rs) world
    \<Rightarrow> bool \<times> ceremony \<times> ('l, 'pp, 'ps, 'rp, 'rs) world" where
  "ceremony_round2 sv c w = end_round 2 (\<lambda>outs c. c\<lparr>ce_responses := outs\<rparr>) c
     (run_round (\<lambda>_. (0, ce_requests c)) (\<lambda>pid inp. call_player pid
        (sv_mta_response sv (ce_txid c) inp (sv_MPC_PROTOCOL_VERSION sv)))
        (ce_signers c) (ce_responses c) 0 w)"

definition ceremony_round3 :: "('l, 'pp, 'ps, 'rp, 'rs) cmp_service \<Rightarrow> ceremony \<Rightarrow> ('l, 'pp, 'ps, 'rp, 'rs) world
    \<Rightarrow> bool \<times> ceremony \<times> ('l, 'pp, 'ps, 'rp, 'rs) world" where
  "ceremony_round3 sv c w = end_round 3 (\<lambda>outs c. c\<lparr>ce_deltas := outs\<rparr>) c
     (run_round (\<lambda>_. (0, ce_responses c)) (\<lambda>pid inp. call_player pid (sv_mta_verify sv (ce_txid c) inp))
        (ce_signers c) (ce_deltas c) 0 w)"

definition ceremony_round4 :: "('l, 'pp, 'ps, 'rp, 'rs) cmp_service \<Rightarrow> ceremony \<Rightarrow> ('l, 'pp, 'ps, 'rp, 'rs) world
    \<Rightarrow> bool \<times> ceremony \<times> ('l, 'pp, 'ps, 'rp, 'rs) world" where
  "ceremony_round4 sv c w = end_round 4 (\<lambda>outs c. c\<lparr>ce_sis := outs\<rparr>) c
     (run_round (\<lambda>_. (0, ce_deltas c)) (\<lambda>pid inp. call_player pid (sv_get_si sv (ce_txid c) inp))
        (ce_signers c) (ce_sis c) 0 w)"

definition ceremony_round5 :: "('l, 'pp, 'ps, 'rp, 'rs) cmp_service \<Rightarrow> ceremony \<Rightarrow> ('l, 'pp, 'ps, 'rp, 'rs) world
    \<Rightarrow> bool \<times> ceremony \<times> ('l, 'pp, 'ps, 'rp, 'rs) world" where
  "ceremony_round5 sv c w =
     (let (r, w') = call_player (hd (ce_signers c)) (sv_get_cmp_signature sv (ce_txid c) (ce_sis c)) w
      in case r of
           Inl e \<Rightarrow> (False, reject (dual_guarded (Inl e :: exn + unit)) 5 c, w')
         | Inr out \<Rightarrow> (True, c\<lparr>ce_sigs := out, ce_round := 5, ce_state := COMPLETED\<rparr>, w'))"

definition step :: "('l, 'pp, 'ps, 'rp, 'rs) cmp_service \<Rightarrow> ceremony \<Rightarrow> ('l, 'pp, 'ps, 'rp, 'rs) world
    \<Rightarrow> bool \<times> ceremony \<times> ('l, 'pp, 'ps, 'rp, 'rs) world" where
  "step sv c0 w =
     (if finished c0 then (False, c0, w)
      else let c = c0\<lparr>ce_state := RUNNING\<rparr> in
        if ce_round c = 0 then ceremony_round1 sv c w
        else if ce_round c = 1 then ceremony_round2 sv c w
        else if ce_round c = 2 then ceremony_round3 sv c w
        else if ce_round c = 3 then ceremony_round4 sv c w
        else if ce_round c = 4 then ceremony_round5 sv c w
        else (False, c, w))"

section \<open>The scheduler loop\<close>

definition record_fingerprint :: "(bytes \<Rightarrow> bytes) \<Rightarrow> (u64, 'l player_ctx) omap \<Rightarrow> string \<Rightarrow> string" where
  "record_fingerprint sha256 players txid =
     foldl (\<lambda>acc (pid, ctx). acc @ to_string_u64 pid
       @ (case digest_for_txid sha256 (pc_signing_store ctx) txid of Some d \<Rightarrow> '':1:'' @ d | None \<Rightarrow> '':0'') @ '','')
       [] players"

record ('l, 'pp, 'ps, 'rp, 'rs) dual_state =
  ds_a :: ceremony
  ds_b :: ceremony
  ds_world :: "('l, 'pp, 'ps, 'rp, 'rs) world"
  ds_last_turn :: "nat option"
  ds_crossed :: bool
  ds_cursor :: "byte list"
  ds_interleave_points :: nat
  ds_advanced :: nat
  ds_max_round :: nat
  ds_trace :: "byte list"
  ds_others_unchanged :: bool
  ds_detail :: string

text \<open>The turn of an iteration, and what is left of the schedule; \<open>ds_cursor\<close> is the unread rest.\<close>

definition pick_turn :: "('l, 'pp, 'ps, 'rp, 'rs) dual_state \<Rightarrow> nat \<times> byte list" where
  "pick_turn s =
     (case ds_cursor s of
        x # rest \<Rightarrow>
          let turn = unat (x AND 1) in
          (if finished (if turn = 0 then ds_a s else ds_b s) then 1 - turn else turn, rest)
      | [] \<Rightarrow> (if finished (ds_a s) then 1 else 0, []))"

definition dual_iteration :: "(bytes \<Rightarrow> bytes) \<Rightarrow> ('l, 'pp, 'ps, 'rp, 'rs) cmp_service
    \<Rightarrow> ('l, 'pp, 'ps, 'rp, 'rs) dual_state \<Rightarrow> ('l, 'pp, 'ps, 'rp, 'rs) dual_state option" where
  "dual_iteration sha256 sv s =
     (if finished (ds_a s) \<and> finished (ds_b s) then None
      else let (turn, rest) = pick_turn s;
               c = (if turn = 0 then ds_a s else ds_b s);
               other = (if turn = 0 then ds_b s else ds_a s)
      in if finished c then None
      else let crosses = (ds_last_turn s \<noteq> None \<and> ds_last_turn s \<noteq> Some turn);
               crossed = (crosses \<or> ds_crossed s);
               before = record_fingerprint sha256 (w_players (ds_world s)) (ce_txid other);
               (advanced, c', w') = step sv c (ds_world s);
               changed = (record_fingerprint sha256 (w_players w') (ce_txid other) \<noteq> before);
               a' = (if turn = 0 then c' else ds_a s);
               b' = (if turn = 0 then ds_b s else c')
      in Some \<lparr>ds_a = a', ds_b = b', ds_world = w', ds_last_turn = Some turn, ds_crossed = crossed, ds_cursor = rest,
           ds_interleave_points = ds_interleave_points s + (if crosses then 1 else 0),
           ds_advanced = ds_advanced s + (if advanced \<and> crossed then 1 else 0),
           ds_max_round = max (ds_max_round s) (max (ce_round a') (ce_round b')),
           ds_trace = ds_trace s @ [of_nat turn],
           ds_others_unchanged = (ds_others_unchanged s \<and> \<not> changed),
           ds_detail = (if changed then ''a step of one ceremony changed the other record'' else ds_detail s)\<rparr>)"

text \<open>\<^verbatim>\<open>for (taken = 0; taken < max_steps; ++taken)\<close>, by the number of iterations left.\<close>

fun dual_loop :: "(bytes \<Rightarrow> bytes) \<Rightarrow> ('l, 'pp, 'ps, 'rp, 'rs) cmp_service \<Rightarrow> nat
    \<Rightarrow> ('l, 'pp, 'ps, 'rp, 'rs) dual_state \<Rightarrow> ('l, 'pp, 'ps, 'rp, 'rs) dual_state" where
  "dual_loop sha256 sv 0 s = s"
| "dual_loop sha256 sv (Suc n) s =
     (case dual_iteration sha256 sv s of None \<Rightarrow> s | Some s' \<Rightarrow> dual_loop sha256 sv n s')"

section \<open>The session\<close>

type_synonym ('pp, 'ps, 'rp, 'rs) dual_session = "('pp, 'ps, 'rp, 'rs) session"

definition dual_session_new :: "('pp, 'ps, 'rp, 'rs) setup_lib \<Rightarrow> snapshot \<Rightarrow> string
    \<Rightarrow> (fault + unit) \<times> ('pp, 'ps, 'rp, 'rs) dual_session" where
  "dual_session_new lib snap key_id =
     (let ids = player_ids snap;
          stores = foldl (\<lambda>m pid. om_emplace pid [] m) [] ids;
          (r, stores') = install_snapshot lib snap key_id stores
      in (r, \<lparr>se_ok = (r = Inr ()), se_key_id = key_id, se_snap = snap, se_ids = ids, se_key_stores = stores'\<rparr>))"

definition dual_signers :: "u64 list \<Rightarrow> byte \<Rightarrow> u64 list" where
  "dual_signers ids t = (if unat t < length ids then take (unat t) ids else ids)"

definition dual_start :: "('pp, 'ps, 'rp, 'rs) setup_lib \<Rightarrow> ('l, 'pp, 'ps, 'rp, 'rs) cmp_service
    \<Rightarrow> ('pp, 'ps, 'rp, 'rs) dual_session \<Rightarrow> u64 \<Rightarrow> bytes \<Rightarrow> drbg_state \<Rightarrow> ('l, 'pp, 'ps, 'rp, 'rs) dual_state" where
  "dual_start lib sv se seed schedule g =
     (let signers = dual_signers (se_ids se) (s_t (se_snap se)); path = [44, 0, 0, 0, 0] in
      \<lparr>ds_a = ceremony_new 0 (se_key_id se) signers path, ds_b = ceremony_new 1 (se_key_id se) signers path,
       ds_world = \<lparr>w_key_stores = se_key_stores se, w_players = make_players sv (se_ids se),
         w_rng = reseed_with_label (c_sha512 lib) seed ''dual'' g\<rparr>,
       ds_last_turn = None, ds_crossed = False, ds_cursor = schedule, ds_interleave_points = 0, ds_advanced = 0,
       ds_max_round = 0, ds_trace = [], ds_others_unchanged = True, ds_detail = []\<rparr>)"

definition max_steps :: nat where
  "max_steps = 32"

text \<open>
  The observations after the loop; \<open>None\<close> where an oracle would read past the end of the snapshot's
  public key. The four calls of the oracle differ in the message and in the signature.
\<close>

definition dual_observe :: "('pp, 'ps, 'rp, 'rs) setup_lib \<Rightarrow> 'c algebra_lib \<Rightarrow> ('pp, 'ps, 'rp, 'rs) dual_session
    \<Rightarrow> ('l, 'pp, 'ps, 'rp, 'rs) dual_state \<Rightarrow> dual_oracle_observation option" where
  "dual_observe lib al se s =
     (let a = ds_a s; b = ds_b s;
          both = (ce_state a = COMPLETED \<and> ce_state b = COMPLETED);
          observer = hd (dual_signers (se_ids se) (s_t (se_snap se)));
          valid = (\<lambda>c sig. map_option fst
            (oracle_signature_valid al (se_snap se) (ce_expected_message c) (ce_path c) (ce_chaincode c) sig False));
          o1 = \<lparr>ob_both_completed = both, ob_signatures_observed = False, ob_signature_a_valid = False,
            ob_signature_b_valid = False, ob_cross_ab = False, ob_cross_ba = False, ob_messages_distinct = False,
            ob_nonce_equal = False, ob_other_records_unchanged = ds_others_unchanged s,
            ob_rollback_a_clean = \<not> (ce_state a = COMPLETED \<and> record_present (ds_world s) observer (ce_txid a)),
            ob_rollback_b_clean = \<not> (ce_state b = COMPLETED \<and> record_present (ds_world s) observer (ce_txid b)),
            ob_key_stores_unchanged = (aggregate_key_store_digest (crypto_lib.truncate lib) (se_key_stores se)
              = aggregate_key_store_digest (crypto_lib.truncate lib) (w_key_stores (ds_world s))),
            ob_harness_fault = (ce_state a = FAULTED \<or> ce_state b = FAULTED)\<rparr>
      in if both \<and> ce_sigs a \<noteq> [] \<and> ce_sigs b \<noteq> []
         then let sa = hd (ce_sigs a); sb = hd (ce_sigs b) in
           (case (valid a sa, valid b sb, valid b sa, valid a sb) of
              (Some va, Some vb, Some cross_ab, Some cross_ba) \<Rightarrow>
                Some (o1\<lparr>ob_signatures_observed := True, ob_signature_a_valid := va, ob_signature_b_valid := vb,
                  ob_cross_ab := cross_ab, ob_cross_ba := cross_ba,
                  ob_messages_distinct := (ce_expected_message a \<noteq> ce_expected_message b),
                  ob_nonce_equal := (take 32 (sg_r sa) = take 32 (sg_r sb))\<rparr>)
            | _ \<Rightarrow> None)
         else Some o1)"

definition dual_conclude :: "('l, 'pp, 'ps, 'rp, 'rs) dual_state \<Rightarrow> u64 \<Rightarrow> dual_oracle_observation \<Rightarrow> dual_result" where
  "dual_conclude s elapsed ob =
     (let v = evaluate_dual_oracles ob in
      \<lparr>dr_both_completed = ob_both_completed ob, dr_max_round_reached = ds_max_round s,
       dr_advanced_past_injection = ds_advanced s, dr_interleave_points = ds_interleave_points s,
       dr_signatures_valid = ov_signatures_valid v, dr_cross_session_verification = ov_cross_session_verification v,
       dr_nonce_reuse = ov_nonce_reuse v, dr_state_isolation = ov_state_isolation v,
       dr_rollback_clean = ov_rollback_clean v, dr_key_store_unchanged = ov_key_store_unchanged v,
       dr_harness_fault = ov_harness_fault v, dr_a = report (ds_a s), dr_b = report (ds_b s),
       dr_schedule = ds_trace s, dr_elapsed_ms = elapsed, dr_detail = ds_detail s\<rparr>)"

definition dual_run :: "('pp, 'ps, 'rp, 'rs) setup_lib \<Rightarrow> 'c algebra_lib \<Rightarrow> ('l, 'pp, 'ps, 'rp, 'rs) cmp_service
    \<Rightarrow> u64 \<Rightarrow> bytes \<Rightarrow> u64 \<Rightarrow> ('pp, 'ps, 'rp, 'rs) dual_session \<Rightarrow> drbg_state
    \<Rightarrow> dual_result option \<times> ('pp, 'ps, 'rp, 'rs) dual_session \<times> drbg_state" where
  "dual_run lib al sv seed schedule elapsed se g =
     (if \<not> se_ok se
      then (Some (dual_result_default\<lparr>dr_harness_fault := True, dr_detail := ''snapshot not installed''\<rparr>), se, g)
      else let signers = dual_signers (se_ids se) (s_t (se_snap se)) in
        if signers = [] \<or> length signers \<noteq> unat (s_t (se_snap se))
        then (Some (dual_result_default\<lparr>dr_harness_fault := True,
                dr_detail := ''signer set does not match the snapshot threshold''\<rparr>), se, g)
        else let s = dual_loop (c_sha256 lib) sv max_steps (dual_start lib sv se seed schedule g) in
          (map_option (dual_conclude s elapsed) (dual_observe lib al se s),
           se\<lparr>se_key_stores := w_key_stores (ds_world s)\<rparr>, w_rng (ds_world s)))"

end
