(* ===== verification/Dual_Interleaving.thy ===== *)
theory Dual_Interleaving
  imports Dual_Session
begin

unbundle bit_operations_syntax

text \<open>
  What the interleaving of two ceremonies does. The locale \<open>resumable\<close> states what a scheduler needs
  of a task that advances one step at a time, and the relation \<open>interleaving\<close> is any hand-out of
  turns to unfinished ones of two such tasks over a shared world; the ceremonies are its instance, and the scheduler loop
  is shown to be one of its runs, to end with both ceremonies finished, and to be reproduced by the
  trace it records. The counters the harness reports are then bounded by an invariant of the loop.
\<close>

section \<open>Turns over a shared world\<close>

inductive interleaving :: "('c \<Rightarrow> bool) \<Rightarrow> ('c \<Rightarrow> 'w \<Rightarrow> 'c \<times> 'w) \<Rightarrow> 'c \<times> 'c \<times> 'w \<Rightarrow> nat list \<Rightarrow> 'c \<times> 'c \<times> 'w \<Rightarrow> bool"
  for fin :: "'c \<Rightarrow> bool" and adv :: "'c \<Rightarrow> 'w \<Rightarrow> 'c \<times> 'w" and s :: "'c \<times> 'c \<times> 'w" where
  start: "interleaving fin adv s [] s"
| turn_a: "interleaving fin adv s ts (a, b, w) \<Longrightarrow> \<not> fin a \<Longrightarrow> adv a w = (a', w')
    \<Longrightarrow> interleaving fin adv s (ts @ [0]) (a', b, w')"
| turn_b: "interleaving fin adv s ts (a, b, w) \<Longrightarrow> \<not> fin b \<Longrightarrow> adv b w = (b', w')
    \<Longrightarrow> interleaving fin adv s (ts @ [1]) (a, b', w')"

inductive_cases interleaving_NilE: "interleaving fin adv s [] x"
inductive_cases interleaving_snocE: "interleaving fin adv s (ts @ [t]) x"

text \<open>The turns determine the run.\<close>

lemma interleaving_deterministic:
  "interleaving fin adv s ts x \<Longrightarrow> interleaving fin adv s ts y \<Longrightarrow> x = y"
proof (induction arbitrary: y rule: interleaving.induct)
  case start
  then show ?case by (auto elim: interleaving_NilE)
next
  case (turn_a ts a b w a' w')
  from turn_a.prems show ?case
    by (cases rule: interleaving_snocE) (use turn_a in auto)
next
  case (turn_b ts a b w b' w')
  from turn_b.prems show ?case
    by (cases rule: interleaving_snocE) (use turn_b in auto)
qed

text \<open>What every step of a task keeps of the world, every interleaving keeps.\<close>

lemma interleaving_world:
  assumes "interleaving fin adv s ts x" and "I (snd (snd s))" and "\<And>c w. I w \<Longrightarrow> I (snd (adv c w))"
  shows "I (snd (snd x))"
  using assms(1)
proof (induction rule: interleaving.induct)
  case start
  then show ?case by (rule assms(2))
next
  case (turn_a ts a b w a' w')
  then show ?case using assms(3) [of w a] by simp
next
  case (turn_b ts a b w b' w')
  then show ?case using assms(3) [of w b] by simp
qed

text \<open>A task with a budget of steps, which each step spends until the task is finished.\<close>

locale resumable =
  fixes good :: "'c \<Rightarrow> bool" and fin :: "'c \<Rightarrow> bool" and budget :: "'c \<Rightarrow> nat" and adv :: "'c \<Rightarrow> 'w \<Rightarrow> 'c \<times> 'w"
  assumes good_adv: "good c \<Longrightarrow> \<not> fin c \<Longrightarrow> good (fst (adv c w))"
    and budget_adv: "good c \<Longrightarrow> \<not> fin c \<Longrightarrow> budget (fst (adv c w)) < budget c"
begin

lemma interleaving_good:
  "interleaving fin adv s ts x \<Longrightarrow> good (fst s) \<Longrightarrow> good (fst (snd s)) \<Longrightarrow> good (fst x) \<and> good (fst (snd x))"
proof (induction rule: interleaving.induct)
  case (turn_a ts a b w a' w')
  then show ?case using good_adv [of a w] by simp
next
  case (turn_b ts a b w b' w')
  then show ?case using good_adv [of b w] by simp
qed simp

text \<open>However the turns are handed out, there are at most as many as both budgets together.\<close>

lemma interleaving_bound:
  "interleaving fin adv s ts x \<Longrightarrow> good (fst s) \<Longrightarrow> good (fst (snd s))
     \<Longrightarrow> length ts + budget (fst x) + budget (fst (snd x)) \<le> budget (fst s) + budget (fst (snd s))"
proof (induction rule: interleaving.induct)
  case (turn_a ts a b w a' w')
  have "good a" using interleaving_good [OF turn_a.hyps(1) turn_a.prems] by simp
  then show ?case using turn_a budget_adv [of a w] by simp
next
  case (turn_b ts a b w b' w')
  have "good b" using interleaving_good [OF turn_b.hyps(1) turn_b.prems] by simp
  then show ?case using turn_b budget_adv [of b w] by simp
qed simp

end

section \<open>A ceremony is resumable\<close>

definition ceremony_ok :: "ceremony \<Rightarrow> bool" where
  "ceremony_ok c \<longleftrightarrow> (case ce_state c of
       PENDING \<Rightarrow> ce_round c = 0
     | RUNNING \<Rightarrow> 1 \<le> ce_round c \<and> ce_round c \<le> 4
     | COMPLETED \<Rightarrow> ce_round c = 5
     | REJECTED \<Rightarrow> ce_round c \<le> 4
     | FAULTED \<Rightarrow> ce_round c \<le> 4)
   \<and> (ce_sigs c \<noteq> [] \<longrightarrow> ce_state c = COMPLETED)"

definition ceremony_budget :: "ceremony \<Rightarrow> nat" where
  "ceremony_budget c = (if finished c then 0 else 5 - ce_round c)"

text \<open>What a ceremony keeps for its whole life.\<close>

definition ceremony_setup where
  "ceremony_setup c = (ce_key_id c, ce_signers c, ce_path c, ce_txid c, ce_chaincode c, ce_expected_message c, ce_data c)"

lemmas ceremony_rounds = ceremony_round1_def ceremony_round2_def ceremony_round3_def ceremony_round4_def

text \<open>A step of an unfinished ceremony: the round was counted, or the ceremony is finished.\<close>

definition stepped :: "nat \<Rightarrow> ceremony \<Rightarrow> bool \<times> ceremony \<times> 'w \<Rightarrow> bool" where
  "stepped n c r \<longleftrightarrow> (case r of (adv, c', w') \<Rightarrow>
     ceremony_setup c' = ceremony_setup c \<and>
     (if adv then ce_round c' = n \<and> (if n = 5 then ce_state c' = COMPLETED
                                      else ce_state c' = RUNNING \<and> ce_sigs c' = ce_sigs c)
      else ce_state c' \<in> {REJECTED, FAULTED} \<and> ce_round c' = ce_round c \<and> ce_sigs c' = ce_sigs c))"

lemma stepped_end_round:
  assumes "\<And>outs. ceremony_setup (keep outs c) = ceremony_setup c \<and> ce_state (keep outs c) = RUNNING
      \<and> ce_sigs (keep outs c) = ce_sigs c" and "n \<noteq> 5" and "m = n"
  shows "stepped m c (end_round n keep c r)"
  using assms by (auto simp: stepped_def end_round_def reject_def ceremony_setup_def split: sum.split prod.split)

lemma stepped_round5: "stepped 5 c (ceremony_round5 sv c w)"
  by (simp add: ceremony_round5_def stepped_def reject_def ceremony_setup_def case_prod_beta split: sum.split)

lemma step_stepped:
  assumes "\<not> finished c" "ceremony_ok c"
  shows "stepped (Suc (ce_round c)) c (step sv c w)"
proof -
  let ?c = "c\<lparr>ce_state := RUNNING\<rparr>"
  have r: "ce_round c < 5" using assms by (auto simp: finished_def ceremony_ok_def split: ceremony_state.splits)
  have same: "stepped n c x \<longleftrightarrow> stepped n ?c x" for n and x :: "bool \<times> ceremony \<times> ('a, 'b, 'c, 'd, 'e) world"
    by (cases x) (simp add: stepped_def ceremony_setup_def)
  consider "ce_round c = 0" | "ce_round c = 1" | "ce_round c = 2" | "ce_round c = 3" | "ce_round c = 4"
    using r by linarith
  then have "stepped (Suc (ce_round c)) ?c (step sv c w)"
  proof cases
    case 5
    then show ?thesis using assms(1) stepped_round5 [of ?c sv w] by (simp add: step_def Let_def)
  qed (use assms(1) in \<open>simp_all add: step_def Let_def ceremony_rounds stepped_end_round ceremony_setup_def\<close>)
  with same show ?thesis by blast
qed

lemma step_unfinished:
  assumes "\<not> finished c" "ceremony_ok c" "step sv c w = (adv, c', w')"
  shows "ceremony_ok c'" and "ceremony_setup c' = ceremony_setup c"
    and "ce_round c' = ce_round c + (if adv then 1 else 0)"
    and "\<not> adv \<Longrightarrow> finished c' \<and> ce_state c' \<noteq> COMPLETED"
proof -
  have s: "stepped (Suc (ce_round c)) c (adv, c', w')" using step_stepped [OF assms(1,2), of sv w] assms(3) by simp
  have c: "ce_round c < 5" "ce_sigs c = []"
    using assms(1,2) by (auto simp: finished_def ceremony_ok_def split: ceremony_state.splits)
  show "ceremony_setup c' = ceremony_setup c" "ce_round c' = ce_round c + (if adv then 1 else 0)"
    "\<not> adv \<Longrightarrow> finished c' \<and> ce_state c' \<noteq> COMPLETED"
    using s by (auto simp: stepped_def finished_def split: if_splits)
  show "ceremony_ok c'"
    using s c by (cases adv; cases "ce_round c = 4") (auto simp: stepped_def ceremony_ok_def)
qed

lemma ceremony_new_ok [simp]: "ceremony_ok (ceremony_new i key signers path)"
  "\<not> finished (ceremony_new i key signers path)" "ceremony_budget (ceremony_new i key signers path) = 5"
  by (simp_all add: ceremony_ok_def ceremony_new_def finished_def ceremony_budget_def)

abbreviation advance where
  "advance sv \<equiv> \<lambda>c w. snd (step sv c w)"

interpretation cer: resumable ceremony_ok finished ceremony_budget "advance sv"
proof
  fix c and w :: "('a, 'b, 'c, 'd, 'e) world"
  assume c: "ceremony_ok c" "\<not> finished c"
  obtain adv c' w' where s: "step sv c w = (adv, c', w')" by (metis prod.collapse)
  note u = step_unfinished [OF c(2,1) s]
  show "ceremony_ok (fst (advance sv c w))" using u(1) s by simp
  have "ce_round c < 5" using c by (auto simp: finished_def ceremony_ok_def split: ceremony_state.splits)
  with u(3,4) s c show "ceremony_budget (fst (advance sv c w)) < ceremony_budget c"
    by (cases adv) (auto simp: ceremony_budget_def)
qed

lemma budget_finished: "ceremony_ok c \<Longrightarrow> ceremony_budget c = 0 \<longleftrightarrow> finished c"
  by (auto simp: ceremony_budget_def ceremony_ok_def finished_def split: ceremony_state.splits)

section \<open>The loop hands out turns\<close>

abbreviation ceremonies where
  "ceremonies s \<equiv> (ds_a s, ds_b s, ds_world s)"

lemma word_and_1: "unat ((x :: byte) AND 1) = (if odd x then 1 else 0)"
  by (simp add: and_one_eq mod_2_eq_odd)

lemma pick_turn_cases:
  assumes "\<not> (finished (ds_a s) \<and> finished (ds_b s))"
  shows "fst (pick_turn s) = 0 \<and> \<not> finished (ds_a s) \<or> fst (pick_turn s) = 1 \<and> \<not> finished (ds_b s)"
  using assms by (cases "ds_cursor s") (auto simp: pick_turn_def word_and_1 Let_def)

lemma dual_iteration_None: "dual_iteration sha sv s = None \<longleftrightarrow> finished (ds_a s) \<and> finished (ds_b s)"
proof (cases "finished (ds_a s) \<and> finished (ds_b s)")
  case False
  from pick_turn_cases [OF False] False show ?thesis
    by (auto simp: dual_iteration_def case_prod_beta Let_def)
qed (simp add: dual_iteration_def)

text \<open>The parts of an iteration that do not depend on whose turn it is.\<close>

definition turn_taken :: "(bytes \<Rightarrow> bytes) \<Rightarrow> nat \<Rightarrow> bool \<Rightarrow> string \<Rightarrow> ('l, 'pp, 'ps, 'rp, 'rs) dual_state
    \<Rightarrow> ('l, 'pp, 'ps, 'rp, 'rs) dual_state \<Rightarrow> bool" where
  "turn_taken sha turn adv other s s' \<longleftrightarrow>
     ds_last_turn s' = Some turn \<and> ds_cursor s' = snd (pick_turn s) \<and> ds_trace s' = ds_trace s @ [of_nat turn]
     \<and> ds_crossed s' = (ds_last_turn s = Some (1 - turn) \<or> ds_crossed s)
     \<and> ds_interleave_points s' = ds_interleave_points s + (if ds_last_turn s = Some (1 - turn) then 1 else 0)
     \<and> ds_advanced s' = ds_advanced s + (if adv \<and> ds_crossed s' then 1 else 0)
     \<and> ds_max_round s' = max (ds_max_round s) (max (ce_round (ds_a s')) (ce_round (ds_b s')))
     \<and> ds_others_unchanged s' = (ds_others_unchanged s \<and> record_fingerprint sha (w_players (ds_world s')) other
          = record_fingerprint sha (w_players (ds_world s)) other)"

definition turn_wf :: "('l, 'pp, 'ps, 'rp, 'rs) dual_state \<Rightarrow> bool" where
  "turn_wf s \<longleftrightarrow> ds_last_turn s \<in> {None, Some 0, Some 1}"

lemma dual_iterationE:
  assumes "dual_iteration sha sv s = Some s'" "turn_wf s"
  obtains (a) adv where "fst (pick_turn s) = 0" "\<not> finished (ds_a s)"
      "step sv (ds_a s) (ds_world s) = (adv, ds_a s', ds_world s')" "ds_b s' = ds_b s"
      "turn_taken sha 0 adv (ce_txid (ds_b s)) s s'"
  | (b) adv where "fst (pick_turn s) = 1" "\<not> finished (ds_b s)"
      "step sv (ds_b s) (ds_world s) = (adv, ds_b s', ds_world s')" "ds_a s' = ds_a s"
      "turn_taken sha 1 adv (ce_txid (ds_a s)) s s'"
proof -
  have nf: "\<not> (finished (ds_a s) \<and> finished (ds_b s))" using assms(1) dual_iteration_None [of sha sv s] by auto
  consider "fst (pick_turn s) = 0" "\<not> finished (ds_a s)" | "fst (pick_turn s) = 1" "\<not> finished (ds_b s)"
    using pick_turn_cases [OF nf] by fastforce
  then show ?thesis
  proof cases
    case 1
    obtain adv c' w' where st: "step sv (ds_a s) (ds_world s) = (adv, c', w')" by (metis prod.collapse)
    obtain rest where p: "pick_turn s = (0, rest)" using 1(1) by (metis prod.collapse)
    note s' = assms(1) [unfolded dual_iteration_def p, simplified 1(2) st Let_def prod.case simp_thms if_True if_False
        option.inject, symmetric]
    show ?thesis
      by (rule a [of adv]) (use 1 st p assms(2) in \<open>auto simp: s' turn_taken_def turn_wf_def\<close>)
  next
    case 2
    obtain adv c' w' where st: "step sv (ds_b s) (ds_world s) = (adv, c', w')" by (metis prod.collapse)
    obtain rest where p: "pick_turn s = (1, rest)" using 2(1) by (metis prod.collapse)
    note s' = assms(1) [unfolded dual_iteration_def p, simplified 2(2) st Let_def prod.case simp_thms if_True if_False
        option.inject one_neq_zero, symmetric]
    show ?thesis
      by (rule b [of adv]) (use 2 st p assms(2) in \<open>auto simp: s' turn_taken_def turn_wf_def\<close>)
  qed
qed

text \<open>
  The rule for invariants of the loop: what holds of the start and is kept by every iteration holds
  at the end.
\<close>

lemma dual_loop_invariant:
  assumes "I s" and "\<And>s s'. I s \<Longrightarrow> dual_iteration sha sv s = Some s' \<Longrightarrow> I s'"
  shows "I (dual_loop sha sv n s)"
  using assms(1)
proof (induction n arbitrary: s)
  case (Suc n)
  then show ?case using assms(2) by (cases "dual_iteration sha sv s") auto
qed simp

text \<open>What has happened since the state \<open>s0\<close> is an interleaving of the two ceremonies.\<close>

definition runs_from :: "('l, 'pp, 'ps, 'rp, 'rs) cmp_service \<Rightarrow> ('l, 'pp, 'ps, 'rp, 'rs) dual_state
    \<Rightarrow> ('l, 'pp, 'ps, 'rp, 'rs) dual_state \<Rightarrow> bool" where
  "runs_from sv s0 s \<longleftrightarrow> turn_wf s \<and> (\<exists>ts. ds_trace s = ds_trace s0 @ ts
     \<and> interleaving finished (advance sv) (ceremonies s0) (map unat ts) (ceremonies s))"

lemma runs_from_iteration:
  assumes "runs_from sv s0 s" "dual_iteration sha sv s = Some s'"
  shows "runs_from sv s0 s'"
proof -
  from assms(1) obtain ts where ts: "ds_trace s = ds_trace s0 @ ts" and wf: "turn_wf s"
    and i: "interleaving finished (advance sv) (ceremonies s0) (map unat ts) (ceremonies s)"
    by (auto simp: runs_from_def)
  from assms(2) wf show ?thesis
  proof (cases rule: dual_iterationE)
    case (a adv)
    have "interleaving finished (advance sv) (ceremonies s0) (map unat ts @ [0]) (ceremonies s')"
      using interleaving.turn_a [OF i a(2), of "ds_a s'" "ds_world s'"] a(3,4) by simp
    with a(5) ts show ?thesis
      by (auto simp: runs_from_def turn_taken_def turn_wf_def intro!: exI [of _ "ts @ [0]"])
  next
    case (b adv)
    have "interleaving finished (advance sv) (ceremonies s0) (map unat ts @ [1]) (ceremonies s')"
      using interleaving.turn_b [OF i b(2), of "ds_b s'" "ds_world s'"] b(3,4) by simp
    with b(5) ts show ?thesis
      by (auto simp: runs_from_def turn_taken_def turn_wf_def intro!: exI [of _ "ts @ [1]"])
  qed
qed

lemma dual_loop_runs:
  "turn_wf s \<Longrightarrow> runs_from sv s (dual_loop sha sv n s)"
  by (rule dual_loop_invariant [where I = "runs_from sv s"], simp add: runs_from_def interleaving.start)
    (rule runs_from_iteration)

text \<open>A loop that stopped early stopped because both ceremonies were finished.\<close>

lemma dual_loop_finished:
  assumes "turn_wf s" "ceremony_ok (ds_a s)" "ceremony_ok (ds_b s)"
    and "ceremony_budget (ds_a s) + ceremony_budget (ds_b s) \<le> n"
  shows "finished (ds_a (dual_loop sha sv n s)) \<and> finished (ds_b (dual_loop sha sv n s))"
  using assms
proof (induction n arbitrary: s)
  case 0
  then show ?case by (simp add: budget_finished)
next
  case (Suc n)
  show ?case
  proof (cases "dual_iteration sha sv s")
    case None
    then show ?thesis using dual_iteration_None [of sha sv s] by simp
  next
    case (Some s')
    have "runs_from sv s s" using Suc.prems(1) by (auto simp: runs_from_def interleaving.start)
    from runs_from_iteration [OF this Some] have wf: "turn_wf s'" by (simp add: runs_from_def)
    have "ceremony_ok (ds_a s') \<and> ceremony_ok (ds_b s')
        \<and> ceremony_budget (ds_a s') + ceremony_budget (ds_b s') < ceremony_budget (ds_a s) + ceremony_budget (ds_b s)"
      using Some Suc.prems(1)
    proof (cases rule: dual_iterationE)
      case (a adv)
      then show ?thesis
        using cer.good_adv [of "ds_a s" sv "ds_world s"] cer.budget_adv [of "ds_a s" sv "ds_world s"] Suc.prems by simp
    next
      case (b adv)
      then show ?thesis
        using cer.good_adv [of "ds_b s" sv "ds_world s"] cer.budget_adv [of "ds_b s" sv "ds_world s"] Suc.prems by simp
    qed
    with Suc.IH [OF wf] Suc.prems(4) Some show ?thesis by simp
  qed
qed

lemma dual_start_simps [simp]:
  "turn_wf (dual_start lib sv se seed sch g)" "ceremony_ok (ds_a (dual_start lib sv se seed sch g))"
  "ceremony_ok (ds_b (dual_start lib sv se seed sch g))" "ceremony_budget (ds_a (dual_start lib sv se seed sch g)) = 5"
  "ceremony_budget (ds_b (dual_start lib sv se seed sch g)) = 5" "ds_trace (dual_start lib sv se seed sch g) = []"
  by (simp_all add: dual_start_def turn_wf_def Let_def)

lemma dual_loop_add: "dual_loop sha sv (m + n) s = dual_loop sha sv n (dual_loop sha sv m s)"
proof (induction m arbitrary: s)
  case (Suc m)
  have "dual_loop sha sv n s = s" if "dual_iteration sha sv s = None" using that by (cases n) auto
  with Suc show ?case by (auto split: option.split)
qed simp

lemma dual_loop_stop: "finished (ds_a s) \<Longrightarrow> finished (ds_b s) \<Longrightarrow> dual_loop sha sv n s = s"
  using dual_iteration_None [of sha sv s] by (cases n) auto

section \<open>The trace reproduces the run\<close>

lemma dual_iteration_cursor:
  assumes "dual_iteration sha sv s = Some s'"
  shows "dual_iteration sha sv (s\<lparr>ds_cursor := of_nat (fst (pick_turn s)) # ts\<rparr>) = Some (s'\<lparr>ds_cursor := ts\<rparr>)"
proof -
  obtain turn rest where p: "pick_turn s = (turn, rest)" by fastforce
  have nf: "\<not> (finished (ds_a s) \<and> finished (ds_b s))" using assms dual_iteration_None [of sha sv s] by auto
  have t: "turn = 0 \<and> \<not> finished (ds_a s) \<or> turn = 1 \<and> \<not> finished (ds_b s)" using pick_turn_cases [OF nf] p by simp
  then have p': "pick_turn (s\<lparr>ds_cursor := of_nat turn # ts\<rparr>) = (turn, ts)" by (auto simp: pick_turn_def Let_def)
  obtain adv c' w' where st: "step sv (if turn = 0 then ds_a s else ds_b s) (ds_world s) = (adv, c', w')"
    by (metis prod.collapse)
  from assms p p' t st show ?thesis
    unfolding dual_iteration_def by (elim disjE conjE) (auto simp: Let_def split del: if_split cong: if_cong)
qed

lemma dual_loop_replay:
  assumes "turn_wf s"
  shows "\<exists>ts. ds_trace (dual_loop sha sv n s) = ds_trace s @ ts
    \<and> dual_loop sha sv n (s\<lparr>ds_cursor := ts\<rparr>) = (dual_loop sha sv n s)\<lparr>ds_cursor := []\<rparr>"
  using assms
proof (induction n arbitrary: s)
  case 0
  show ?case by (intro exI [of _ "[]"]) simp
next
  case (Suc n)
  show ?case
  proof (cases "dual_iteration sha sv s")
    case None
    then have "dual_iteration sha sv (s\<lparr>ds_cursor := []\<rparr>) = None" by (simp add: dual_iteration_None)
    with None show ?thesis by (intro exI [of _ "[]"]) simp
  next
    case (Some s')
    have "runs_from sv s s" using Suc.prems by (auto simp: runs_from_def interleaving.start)
    from runs_from_iteration [OF this Some] have wf: "turn_wf s'" by (simp add: runs_from_def)
    have tr: "ds_trace s' = ds_trace s @ [of_nat (fst (pick_turn s))]"
      using Some Suc.prems by (cases rule: dual_iterationE) (auto simp: turn_taken_def)
    from Suc.IH [OF wf] obtain ts where ts: "ds_trace (dual_loop sha sv n s') = ds_trace s' @ ts"
      "dual_loop sha sv n (s'\<lparr>ds_cursor := ts\<rparr>) = (dual_loop sha sv n s')\<lparr>ds_cursor := []\<rparr>" by blast
    show ?thesis
      by (rule exI [of _ "of_nat (fst (pick_turn s)) # ts"])
        (use Some ts tr in \<open>simp add: dual_iteration_cursor [OF Some]\<close>)
  qed
qed

lemma dual_start_cursor: "dual_start lib sv se seed ts g = (dual_start lib sv se seed sch g)\<lparr>ds_cursor := ts\<rparr>"
  by (simp add: dual_start_def Let_def)

lemma dual_observe_cursor [simp]: "dual_observe lib al se (s\<lparr>ds_cursor := ts\<rparr>) = dual_observe lib al se s"
  by (simp add: dual_observe_def)

lemma dual_conclude_cursor [simp]: "dual_conclude (s\<lparr>ds_cursor := ts\<rparr>) = dual_conclude s"
  by (rule ext) (simp add: dual_conclude_def fun_eq_iff)

section \<open>The counters of the loop\<close>

definition failed :: "ceremony \<Rightarrow> bool" where
  "failed c \<longleftrightarrow> ce_state c = REJECTED \<or> ce_state c = FAULTED"

text \<open>
  Before the first change of turn nothing is counted and the ceremony that has not had a turn is
  where it began; after it, the steps of that ceremony are all counted and those of the other are not
  all of them.
\<close>

definition progress_ok :: "('l, 'pp, 'ps, 'rp, 'rs) dual_state \<Rightarrow> bool" where
  "progress_ok s \<longleftrightarrow> turn_wf s \<and> ceremony_ok (ds_a s) \<and> ceremony_ok (ds_b s)
     \<and> length (ds_trace s) = (ce_round (ds_a s) + (if failed (ds_a s) then 1 else 0))
                            + (ce_round (ds_b s) + (if failed (ds_b s) then 1 else 0))
     \<and> (ds_last_turn s = None \<longleftrightarrow> ds_trace s = [])
     \<and> ds_max_round s = max (ce_round (ds_a s)) (ce_round (ds_b s))"

definition crossing_ok :: "('l, 'pp, 'ps, 'rp, 'rs) dual_state \<Rightarrow> bool" where
  "crossing_ok s \<longleftrightarrow>
     (if ds_crossed s then 0 < ds_interleave_points s \<and> ds_interleave_points s < length (ds_trace s)
          \<and> (ce_round (ds_a s) \<le> ds_advanced s \<or> ce_round (ds_b s) \<le> ds_advanced s) \<and> ds_advanced s < length (ds_trace s)
      else ds_interleave_points s = 0 \<and> ds_advanced s = 0
          \<and> (ds_last_turn s \<noteq> Some 0 \<longrightarrow> ce_state (ds_a s) = PENDING)
          \<and> (ds_last_turn s \<noteq> Some 1 \<longrightarrow> ce_state (ds_b s) = PENDING))"

lemma counters_start: "progress_ok (dual_start lib sv se seed sch g)" "crossing_ok (dual_start lib sv se seed sch g)"
  by (simp_all add: progress_ok_def crossing_ok_def dual_start_def turn_wf_def Let_def ceremony_new_def
      ceremony_ok_def failed_def)

lemma step_counters:
  assumes "\<not> finished c" "ceremony_ok c" "step sv c w = (adv, c', w')"
  shows "ce_round c' + (if failed c' then 1 else 0) = Suc (ce_round c)" "\<not> failed c"
    "adv \<Longrightarrow> ce_round c' = Suc (ce_round c)" "\<not> adv \<Longrightarrow> ce_round c' = ce_round c"
proof -
  note u = step_unfinished [OF assms]
  show "\<not> failed c" "adv \<Longrightarrow> ce_round c' = Suc (ce_round c)" "\<not> adv \<Longrightarrow> ce_round c' = ce_round c"
    using u(3) assms(1) by (auto simp: failed_def finished_def)
  have "failed c' \<longleftrightarrow> \<not> adv"
    using step_stepped [OF assms(1,2), of sv w] assms(3)
    by (auto simp: stepped_def failed_def split: if_splits)
  with u(3) show "ce_round c' + (if failed c' then 1 else 0) = Suc (ce_round c)" by simp
qed

lemma progress_iteration:
  assumes "progress_ok s" "dual_iteration sha sv s = Some s'"
  shows "progress_ok s'"
proof -
  have wf: "turn_wf s" and oka: "ceremony_ok (ds_a s)" and okb: "ceremony_ok (ds_b s)"
    using assms(1) by (simp_all add: progress_ok_def)
  from assms(2) wf show ?thesis
  proof (cases rule: dual_iterationE)
    case (a adv)
    note st = step_counters [OF a(2) oka a(3)] step_unfinished(1) [OF a(2) oka a(3)]
    have "ce_round (ds_a s) \<le> ce_round (ds_a s')" using st by (cases adv) simp_all
    with assms(1) a(4,5) st(1,2,5) show ?thesis by (simp add: progress_ok_def turn_taken_def turn_wf_def)
  next
    case (b adv)
    note st = step_counters [OF b(2) okb b(3)] step_unfinished(1) [OF b(2) okb b(3)]
    have "ce_round (ds_b s) \<le> ce_round (ds_b s')" using st by (cases adv) simp_all
    with assms(1) b(4,5) st(1,2,5) show ?thesis by (simp add: progress_ok_def turn_taken_def turn_wf_def)
  qed
qed

lemma crossing_iteration:
  assumes "progress_ok s" "crossing_ok s" "dual_iteration sha sv s = Some s'"
  shows "crossing_ok s'"
proof -
  have wf: "turn_wf s" and oka: "ceremony_ok (ds_a s)" and okb: "ceremony_ok (ds_b s)"
    and tr: "ds_last_turn s = None \<longleftrightarrow> ds_trace s = []"
    using assms(1) by (simp_all add: progress_ok_def)
  have pend: "ce_state (ds_a s) = PENDING \<Longrightarrow> ce_round (ds_a s) = 0" "ce_state (ds_b s) = PENDING \<Longrightarrow> ce_round (ds_b s) = 0"
    using oka okb by (simp_all add: ceremony_ok_def)
  from assms(3) wf show ?thesis
  proof (cases rule: dual_iterationE)
    case (a adv)
    note st = step_counters(3,4) [OF a(2) oka a(3)]
    have "ce_round (ds_a s') = ce_round (ds_a s) + (if adv then 1 else 0)" using st by (cases adv) simp_all
    with assms(2) a(4,5) wf tr pend(1) show ?thesis
      by (cases "ds_crossed s"; cases "ds_last_turn s = Some 1") (auto simp: crossing_ok_def turn_taken_def turn_wf_def)
  next
    case (b adv)
    note st = step_counters(3,4) [OF b(2) okb b(3)]
    have "ce_round (ds_b s') = ce_round (ds_b s) + (if adv then 1 else 0)" using st by (cases adv) simp_all
    with assms(2) b(4,5) wf tr pend(2) show ?thesis
      by (cases "ds_crossed s"; cases "ds_last_turn s = Some 0") (auto simp: crossing_ok_def turn_taken_def turn_wf_def)
  qed
qed


section \<open>What a run of the scheduler shows\<close>

text \<open>The two ways a run is refused, and the run itself.\<close>

definition dual_contract :: "('pp, 'ps, 'rp, 'rs) dual_session \<Rightarrow> bool" where
  "dual_contract se \<longleftrightarrow> se_ok se \<and> 0 < s_t (se_snap se) \<and> unat (s_t (se_snap se)) \<le> length (se_ids se)"

lemma dual_signers_ok:
  "dual_signers ids t \<noteq> [] \<and> length (dual_signers ids t) = unat t \<longleftrightarrow> 0 < t \<and> unat t \<le> length ids"
proof -
  have "0 < t \<longleftrightarrow> unat t \<noteq> 0" by (simp add: word_gt_0 unat_eq_zero)
  then show ?thesis by (cases "unat t < length ids") (auto simp: dual_signers_def)
qed

lemma dual_signers_eq: "unat t \<le> length ids \<Longrightarrow> dual_signers ids t = take (unat t) ids"
  by (simp add: dual_signers_def)

abbreviation dual_end where
  "dual_end lib sv seed schedule se g \<equiv> dual_loop (c_sha256 lib) sv max_steps (dual_start lib sv se seed schedule g)"

lemma dual_run_eq:
  assumes "dual_contract se"
  shows "dual_run lib al sv seed schedule elapsed se g =
    (let s = dual_end lib sv seed schedule se g in
     (map_option (dual_conclude s elapsed) (dual_observe lib al se s),
      se\<lparr>se_key_stores := w_key_stores (ds_world s)\<rparr>, w_rng (ds_world s)))"
  using assms dual_signers_ok [of "se_ids se" "s_t (se_snap se)"] by (simp add: dual_run_def dual_contract_def Let_def)

lemma dual_run_refused:
  assumes "\<not> dual_contract se"
  obtains d where "\<And>seed schedule elapsed g. dual_run lib al sv seed schedule elapsed se g
    = (Some (dual_result_default\<lparr>dr_harness_fault := True, dr_detail := d\<rparr>), se, g)"
proof (cases "se_ok se")
  case True
  then have "dual_signers (se_ids se) (s_t (se_snap se)) = []
      \<or> length (dual_signers (se_ids se) (s_t (se_snap se))) \<noteq> unat (s_t (se_snap se))"
    using assms dual_signers_ok [of "se_ids se" "s_t (se_snap se)"] by (auto simp: dual_contract_def)
  with True show ?thesis by (intro that) (simp add: dual_run_def Let_def)
next
  case False
  then show ?thesis by (intro that) (simp add: dual_run_def)
qed

lemma dual_run_result:
  assumes "dual_contract se" "fst (dual_run lib al sv seed schedule elapsed se g) = Some r"
  obtains ob where "dual_observe lib al se (dual_end lib sv seed schedule se g) = Some ob"
    "r = dual_conclude (dual_end lib sv seed schedule se g) elapsed ob"
  using assms(2) by (auto simp: dual_run_eq [OF assms(1)] Let_def)

lemma dual_observe_both:
  "dual_observe lib al se s = Some ob \<Longrightarrow> ob_both_completed ob \<longleftrightarrow> ce_state (ds_a s) = COMPLETED \<and> ce_state (ds_b s) = COMPLETED"
  by (auto simp: dual_observe_def Let_def split: if_splits option.splits)

lemma dual_end_counters: "progress_ok (dual_end lib sv seed schedule se g) \<and> crossing_ok (dual_end lib sv seed schedule se g)"
  by (rule dual_loop_invariant [where I = "\<lambda>s. progress_ok s \<and> crossing_ok s"])
    (use counters_start progress_iteration crossing_iteration in blast)+

lemma dual_end_finished:
  "finished (ds_a (dual_end lib sv seed schedule se g)) \<and> finished (ds_b (dual_end lib sv seed schedule se g))"
  by (rule dual_loop_finished) (simp_all add: max_steps_def)

text \<open>Both ceremonies had a turn, so the turn changed at least once.\<close>

lemma dual_end_crossed: "ds_crossed (dual_end lib sv seed schedule se g)"
  using dual_end_finished [of lib sv se seed schedule g] dual_end_counters [of lib sv se seed schedule g]
  by (auto simp: crossing_ok_def finished_def split: if_splits)

lemma dual_run_crosses:
  assumes "dual_contract se" "fst (dual_run lib al sv seed schedule elapsed se g) = Some r"
  shows "1 \<le> dr_interleave_points r \<and> dr_interleave_points r < length (dr_schedule r)"
proof -
  from assms obtain ob where "r = dual_conclude (dual_end lib sv seed schedule se g) elapsed ob" by (rule dual_run_result)
  then show ?thesis
    using dual_end_counters [of lib sv se seed schedule g] dual_end_crossed [of lib sv se seed schedule g]
    by (simp add: dual_conclude_def crossing_ok_def Let_def)
qed

text \<open>C3: the scheduler always ends with both ceremonies finished, after at most ten turns, whatever the
  schedule and whatever the library does, so the bound of 32 iterations never cuts a run off and any
  larger bound gives the same end; and what it did is an interleaving of the two ceremonies in the
  order of the trace it records, each turn going to a ceremony that was not finished.\<close>

theorem scheduler_finishes_both:
  "let s0 = dual_start lib sv se seed schedule g; s = dual_loop (c_sha256 lib) sv max_steps s0 in
     finished (ds_a s) \<and> finished (ds_b s) \<and> length (ds_trace s) \<le> 10
     \<and> dual_loop (c_sha256 lib) sv (10 + n) s0 = s
     \<and> interleaving finished (\<lambda>c w. snd (step sv c w)) (ds_a s0, ds_b s0, ds_world s0) (map unat (ds_trace s))
         (ds_a s, ds_b s, ds_world s)"
proof -
  let ?init = "dual_start lib sv se seed schedule g" and ?L = "dual_loop (c_sha256 lib) sv"
  have fin: "finished (ds_a (?L 10 ?init))" "finished (ds_b (?L 10 ?init))"
    using dual_loop_finished [of ?init 10 "c_sha256 lib" sv] by simp_all
  have same: "?L (10 + k) ?init = ?L 10 ?init" for k by (simp only: dual_loop_add dual_loop_stop [OF fin])
  have eq: "?L max_steps ?init = ?L 10 ?init" using same [of 22] by (simp add: max_steps_def)
  have r: "interleaving finished (advance sv) (ceremonies ?init) (map unat (ds_trace (?L 10 ?init))) (ceremonies (?L 10 ?init))"
    using dual_loop_runs [of ?init sv "c_sha256 lib" 10] by (simp add: runs_from_def)
  have "length (ds_trace (?L 10 ?init)) \<le> 10"
    using cer.interleaving_bound [OF r] by simp
  with fin same r show ?thesis unfolding Let_def eq by simp
qed

text \<open>C30: the schedule a run reports reproduces it: run again with the reported schedule, from the same
  state, the scheduler returns the same result and leaves the same session and generator.\<close>

theorem reported_schedule_replays:
  assumes "fst (dual_run lib al sv seed schedule elapsed se g) = Some r"
  shows "dual_run lib al sv seed (dr_schedule r) elapsed se g = dual_run lib al sv seed schedule elapsed se g"
proof (cases "dual_contract se")
  case False
  from dual_run_refused [OF False, of lib al sv] show ?thesis by metis
next
  case True
  let ?init = "dual_start lib sv se seed schedule g" and ?s = "dual_end lib sv seed schedule se g"
  from True assms obtain ob where "r = dual_conclude ?s elapsed ob" by (rule dual_run_result)
  then have r: "dr_schedule r = ds_trace ?s" by (simp add: dual_conclude_def Let_def)
  obtain ts where "ds_trace ?s = ts" "dual_loop (c_sha256 lib) sv max_steps (?init\<lparr>ds_cursor := ts\<rparr>) = ?s\<lparr>ds_cursor := []\<rparr>"
    using dual_loop_replay [of ?init "c_sha256 lib" sv max_steps] by auto
  with r have e: "dual_end lib sv seed (dr_schedule r) se g = ?s\<lparr>ds_cursor := []\<rparr>"
    by (subst dual_start_cursor [where sch = schedule]) simp
  show ?thesis unfolding dual_run_eq [OF True] Let_def e by simp
qed


text \<open>A library that keeps no records: its signature is the message of the ceremony it is called for.\<close>

definition mute_service :: "(unit, nat, nat, nat, nat) cmp_service" where
  "mute_service = \<lparr>sv_new = (\<lambda>_. ()), sv_MPC_PROTOCOL_VERSION = 1, sv_MAX_BLOCKS_TO_SIGN = 5,
     sv_start_signing = (\<lambda>key txid alg data meta strs ids e. (Inr [], e)),
     sv_mta_response = (\<lambda>txid inp v e. (Inr sample_responses, e)),
     sv_mta_verify = (\<lambda>txid inp e. (Inr [], e)), sv_get_si = (\<lambda>txid inp e. (Inr [], e)),
     sv_get_cmp_signature = (\<lambda>txid inp e. (Inr [\<lparr>sg_r = ceremony_message (if txid = ''opus-dual-tx-a'' then 0 else 1),
       sg_s = replicate 32 1, sg_v = 0\<rparr>], e))\<rparr>"

section \<open>The players stay, and what calls keep, steps keep\<close>

definition players_are :: "u64 set \<Rightarrow> ('l, 'pp, 'ps, 'rp, 'rs) world \<Rightarrow> bool" where
  "players_are K w \<longleftrightarrow> om_ok (w_players w) \<and> (\<forall>pid. om_find (w_players w) pid \<noteq> None \<longleftrightarrow> pid \<in> K)"

lemma players_are_call: "players_are K w \<Longrightarrow> players_are K (snd (call_player pid f w))"
  by (auto simp: players_are_def call_player_def put_env_def case_prod_beta store_simps split: option.split)

text \<open>The calls of the service for one transaction keep a property of the world.\<close>

definition keeps_for :: "('l, 'pp, 'ps, 'rp, 'rs) cmp_service \<Rightarrow> string \<Rightarrow> (('l, 'pp, 'ps, 'rp, 'rs) world \<Rightarrow> bool) \<Rightarrow> bool" where
  "keeps_for sv t I \<longleftrightarrow> (\<forall>pid w. I w \<longrightarrow>
     (\<forall>a c d f g h. I (snd (call_player pid (sv_start_signing sv a t c d f g h) w)))
     \<and> (\<forall>b c. I (snd (call_player pid (sv_mta_response sv t b c) w)))
     \<and> (\<forall>b. I (snd (call_player pid (sv_mta_verify sv t b) w)))
     \<and> (\<forall>b. I (snd (call_player pid (sv_get_si sv t b) w)))
     \<and> (\<forall>b. I (snd (call_player pid (sv_get_cmp_signature sv t b) w))))"

lemma service_keeps_for: "service_keeps sv I \<Longrightarrow> keeps_for sv t I"
  by (simp add: service_keeps_def keeps_for_def)

lemma players_are_kept: "keeps_for sv t (players_are K)"
  by (simp add: keeps_for_def players_are_call)

lemma players_start: "players_are (set (se_ids se)) (ds_world (dual_start lib sv se seed sch g))"
  using make_players_keys [of sv "se_ids se"] by (simp add: players_are_def dual_start_def Let_def)

lemma end_round_world: "snd (snd (end_round n keep c r)) = snd (snd r)"
  by (simp add: end_round_def split: prod.split sum.split)

lemma run_round_keeps:
  assumes "\<And>pid inp w. I w \<Longrightarrow> I (snd (call pid inp w))" "I w"
  shows "I (snd (snd (run_round vw call ids outs k w)))"
proof -
  obtain r k' w' where r: "run_round vw call ids outs k w = (r, k', w')" by (metis prod.collapse)
  have "I w'" by (rule run_round_invariant [where I = I, OF _ assms(2) r]) (use assms(1) in \<open>metis snd_conv\<close>)
  with r show ?thesis by simp
qed

lemma step_keeps:
  assumes "keeps_for sv (ce_txid c) I" "I w"
  shows "I (snd (snd (step sv c w)))"
proof -
  note sk = assms(1) [unfolded keeps_for_def, rule_format]
  have "I (snd (snd (ceremony_round5 sv (c\<lparr>ce_state := RUNNING\<rparr>) w)))"
    using sk [OF assms(2)] by (simp add: ceremony_round5_def case_prod_beta split: sum.split)
  moreover have "I (snd (snd (ceremony_round1 sv (c\<lparr>ce_state := RUNNING\<rparr>) w)))"
    "I (snd (snd (ceremony_round2 sv (c\<lparr>ce_state := RUNNING\<rparr>) w)))"
    "I (snd (snd (ceremony_round3 sv (c\<lparr>ce_state := RUNNING\<rparr>) w)))"
    "I (snd (snd (ceremony_round4 sv (c\<lparr>ce_state := RUNNING\<rparr>) w)))"
    unfolding ceremony_rounds end_round_world by (rule run_round_keeps [where I = I, OF _ assms(2)], simp add: sk)+
  ultimately show ?thesis using assms(2) by (simp add: step_def Let_def)
qed

section \<open>Calls that do not throw\<close>

definition never_throws :: "('l, 'pp, 'ps, 'rp, 'rs) cmp_service \<Rightarrow> bool" where
  "never_throws sv \<longleftrightarrow>
     (\<forall>a b c d f g h e x. fst (sv_start_signing sv a b c d f g h e) \<noteq> Inl x)
     \<and> (\<forall>a b c e x. fst (sv_mta_response sv a b c e) \<noteq> Inl x) \<and> (\<forall>a b e x. fst (sv_mta_verify sv a b e) \<noteq> Inl x)
     \<and> (\<forall>a b e x. fst (sv_get_si sv a b e) \<noteq> Inl x) \<and> (\<forall>a b e x. fst (sv_get_cmp_signature sv a b e) \<noteq> Inl x)"

lemma call_player_succeeds:
  assumes "players_are K w" "pid \<in> K" "\<And>e x. fst (f e) \<noteq> Inl x"
  shows "\<exists>out w'. call_player pid f w = (Inr out, w') \<and> players_are K w'"
proof -
  obtain ctx where ctx: "om_find (w_players w) pid = Some ctx" using assms(1,2) by (auto simp: players_are_def)
  obtain out where "fst (f (env_of w pid ctx)) = Inr out" using assms(3) by (metis sumE)
  with ctx have "fst (call_player pid f w) = Inr out" by (simp add: call_player_def case_prod_beta)
  with players_are_call [OF assms(1), of pid f] show ?thesis by (metis prod.collapse)
qed

lemma run_round_succeeds:
  assumes "players_are K w" "set ids \<subseteq> K" "\<And>inp e x. fst (f inp e) \<noteq> Inl x"
  shows "\<exists>outs'. fst (run_round vw (\<lambda>pid inp. call_player pid (f inp)) ids outs k w) = Inr outs'"
  using assms
proof (induction ids arbitrary: outs k w)
  case (Cons pid ids)
  obtain d inp where v: "vw pid = (d, inp)" by fastforce
  have "pid \<in> K" using Cons.prems(2) by simp
  from call_player_succeeds [OF Cons.prems(1) this, of "f inp"] Cons.prems(3)
  obtain out w' where c: "call_player pid (f inp) w = (Inr out, w')" and w': "players_are K w'" by blast
  from Cons.IH [OF w', of "om_set pid out outs" "k + d"] Cons.prems v c show ?case by simp
qed simp

lemma end_round_succeeds: "\<exists>outs. fst r = Inr outs \<Longrightarrow> fst (end_round n keep c r)"
  by (cases r) (auto simp: end_round_def)

lemma step_succeeds:
  assumes "never_throws sv" "players_are K w" "set (ce_signers c) \<subseteq> K" "ce_signers c \<noteq> []"
    and "\<not> finished c" "ceremony_ok c"
  shows "fst (step sv c w)"
proof -
  note nt = assms(1) [unfolded never_throws_def]
  let ?c = "c\<lparr>ce_state := RUNNING\<rparr>"
  have s: "set (ce_signers ?c) \<subseteq> K" using assms(3) by simp
  have r: "ce_round c < 5" using assms(5,6) by (auto simp: finished_def ceremony_ok_def split: ceremony_state.splits)
  have 5: "fst (ceremony_round5 sv ?c w)"
  proof -
    have "hd (ce_signers c) \<in> K" using assms(3,4) by auto
    moreover have "fst (sv_get_cmp_signature sv (ce_txid c) (ce_sis c) e) \<noteq> Inl x" for e x using nt by blast
    ultimately obtain out w' where
      "call_player (hd (ce_signers c)) (sv_get_cmp_signature sv (ce_txid c) (ce_sis c)) w = (Inr out, w')"
      using call_player_succeeds [OF assms(2)] by blast
    then show ?thesis by (simp add: ceremony_round5_def case_prod_beta)
  qed
  have 1: "fst (ceremony_round1 sv ?c w)" unfolding ceremony_round1_def
    by (rule end_round_succeeds, rule run_round_succeeds [OF assms(2) s]) (use nt in simp)
  have 2: "fst (ceremony_round2 sv ?c w)" unfolding ceremony_round2_def
    by (rule end_round_succeeds, rule run_round_succeeds [OF assms(2) s]) (use nt in simp)
  have 3: "fst (ceremony_round3 sv ?c w)" unfolding ceremony_round3_def
    by (rule end_round_succeeds, rule run_round_succeeds [OF assms(2) s]) (use nt in simp)
  have 4: "fst (ceremony_round4 sv ?c w)" unfolding ceremony_round4_def
    by (rule end_round_succeeds, rule run_round_succeeds [OF assms(2) s]) (use nt in simp)
  consider "ce_round c = 0" | "ce_round c = 1" | "ce_round c = 2" | "ce_round c = 3" | "ce_round c = 4"
    using r by linarith
  then show ?thesis using 1 2 3 4 5 assms(5) by cases (simp_all add: step_def Let_def)
qed

definition on_course :: "u64 set \<Rightarrow> u64 list \<Rightarrow> ('l, 'pp, 'ps, 'rp, 'rs) dual_state \<Rightarrow> bool" where
  "on_course K signers s \<longleftrightarrow> progress_ok s \<and> \<not> failed (ds_a s) \<and> \<not> failed (ds_b s)
     \<and> ce_signers (ds_a s) = signers \<and> ce_signers (ds_b s) = signers \<and> players_are K (ds_world s)"

lemma step_on_course:
  assumes "never_throws sv" "players_are K w" "set (ce_signers c) \<subseteq> K" "ce_signers c \<noteq> []"
    and "\<not> finished c" "ceremony_ok c" "step sv c w = (adv, c', w')"
  shows "\<not> failed c' \<and> ce_signers c' = ce_signers c \<and> players_are K w'"
proof -
  have "adv" using step_succeeds [OF assms(1-6)] assms(7) by simp
  moreover have "players_are K w'" using step_keeps [OF players_are_kept assms(2), of sv c] assms(7) by simp
  moreover have "ceremony_setup c' = ceremony_setup c" by (rule step_unfinished(2) [OF assms(5-7)])
  ultimately show ?thesis
    using step_counters(1,3) [OF assms(5-7)] by (simp add: ceremony_setup_def split: if_splits)
qed

lemma on_course_iteration:
  assumes "never_throws sv" "set signers \<subseteq> K" "signers \<noteq> []" "on_course K signers s" "dual_iteration sha sv s = Some s'"
  shows "on_course K signers s'"
proof -
  have p: "progress_ok s" and wf: "turn_wf s" and ok: "ceremony_ok (ds_a s)" "ceremony_ok (ds_b s)"
    and s: "players_are K (ds_world s)" "ce_signers (ds_a s) = signers" "ce_signers (ds_b s) = signers"
    using assms(4) by (simp_all add: on_course_def progress_ok_def)
  have p': "progress_ok s'" by (rule progress_iteration [OF p assms(5)])
  from assms(5) wf show ?thesis
  proof (cases rule: dual_iterationE)
    case (a adv)
    show ?thesis
      using step_on_course [OF assms(1) s(1) _ _ a(2) ok(1) a(3)] a(4) assms(2-4) s p' by (simp add: on_course_def)
  next
    case (b adv)
    show ?thesis
      using step_on_course [OF assms(1) s(1) _ _ b(2) ok(2) b(3)] b(4) assms(2-4) s p' by (simp add: on_course_def)
  qed
qed

lemma set_dual_signers: "set (dual_signers ids t) \<subseteq> set ids"
  by (auto simp: dual_signers_def dest: in_set_takeD)

lemma never_throws_completes:
  assumes "never_throws sv" "dual_contract se"
  shows "ce_state (ds_a (dual_end lib sv seed schedule se g)) = COMPLETED
    \<and> ce_state (ds_b (dual_end lib sv seed schedule se g)) = COMPLETED"
proof -
  let ?S = "dual_signers (se_ids se) (s_t (se_snap se))" and ?e = "dual_end lib sv seed schedule se g"
  have S: "?S \<noteq> []" using assms(2) dual_signers_ok by (auto simp: dual_contract_def)
  have "on_course (set (se_ids se)) ?S ?e"
  proof (rule dual_loop_invariant [where I = "on_course (set (se_ids se)) ?S"])
    show "on_course (set (se_ids se)) ?S (dual_start lib sv se seed schedule g)"
      using counters_start(1) [of lib sv se seed schedule g] players_start [of se lib sv seed schedule g]
      by (simp add: on_course_def) (simp add: dual_start_def Let_def ceremony_new_def failed_def)
  qed (rule on_course_iteration [OF assms(1) set_dual_signers S])
  then have "\<not> failed (ds_a ?e)" "\<not> failed (ds_b ?e)" by (simp_all add: on_course_def)
  moreover have "finished (ds_a ?e)" "finished (ds_b ?e)" using dual_end_finished [of lib sv se seed schedule g] by simp_all
  ultimately show ?thesis
    by (cases "ce_state (ds_a ?e)"; cases "ce_state (ds_b ?e)") (simp_all add: finished_def failed_def)
qed

lemma dual_observe_defined: "key_in_bounds (se_snap se) \<Longrightarrow> dual_observe lib al se s \<noteq> None"
  by (simp add: dual_observe_def Let_def oracles_defined(1) split: option.split)


lemma mute_contract: "dual_contract toy_session" "key_in_bounds (se_snap toy_session)" "never_throws mute_service"
  by (simp_all add: dual_contract_def toy_session_def toy_fixture_def key_in_bounds_def never_throws_def mute_service_def
      snapshot_default_def)


lemma mute_completes:
  obtains r where "fst (dual_run toy_lib toy_algebra mute_service 5 schedule 7 toy_session g_state_init) = Some r"
    "dr_both_completed r"
proof -
  let ?e = "dual_end toy_lib mute_service 5 schedule toy_session g_state_init"
  obtain ob where ob: "dual_observe toy_lib toy_algebra toy_session ?e = Some ob"
    using dual_observe_defined [OF mute_contract(2)] by blast
  have "ob_both_completed ob"
    using never_throws_completes [OF mute_contract(3,1)] dual_observe_both [OF ob] by simp
  with ob that show ?thesis by (auto simp: dual_run_eq [OF mute_contract(1)] Let_def dual_conclude_def)
qed

theorem reported_schedule_replays_witness:
  "\<exists>r. fst (dual_run toy_lib toy_algebra mute_service 5 [0, 3, 1] 7 toy_session g_state_init) = Some r
     \<and> dual_run toy_lib toy_algebra mute_service 5 (dr_schedule r) 7 toy_session g_state_init
       = dual_run toy_lib toy_algebra mute_service 5 [0, 3, 1] 7 toy_session g_state_init"
  using mute_completes [of "[0, 3, 1]"] reported_schedule_replays by metis


end
