(* ===== verification/Dual_Oracles.thy ===== *)
theory Dual_Oracles
  imports Dual_Interleaving
begin

text \<open>
  What the dual-session harness may conclude from a run. The fingerprint compared around every step
  changes exactly when some player's digest of the other ceremony's record changes; a library that
  reaches the transaction store only through operations on the transaction it was called for is never
  blamed for mixing the two; a run is reproducible; and the findings of a run are spelled out in terms
  of the signatures, the records left behind and the key stores.
\<close>

section \<open>The fingerprint\<close>

lemma separators_not_hex: "CHR '','' \<notin> set (sha256_hex sha x)"
proof -
  have "\<forall>d\<in>set [0..<16]. hex_char d \<noteq> CHR '',''" by code_simp
  then have h: "hex_char d \<noteq> CHR '',''" if "d < 16" for d using that by simp
  have "unat (b :: byte) div 16 < 16" for b using unsigned_less [where 'a = nat and 'b = 8, of b] by simp
  then have "CHR '','' \<noteq> hex_char (unat b div 16)" "CHR '','' \<noteq> hex_char (unat b mod 16)" for b :: byte
    using h [of "unat b div 16"] h [of "unat b mod 16"] by (metis, metis mod_less_divisor zero_less_numeral)
  then show ?thesis by (auto simp: sha256_hex_def)
qed

lemma separators_not_digits: "CHR '','' \<notin> set (to_string_u64 v)" "CHR '':'' \<notin> set (to_string_u64 v)"
  using dec_of_nat_digits [of "CHR '',''" "unat v"] dec_of_nat_digits [of "CHR '':''" "unat v"]
  by (auto simp: to_string_u64_def)

definition fingerprint_entry :: "(bytes \<Rightarrow> bytes) \<Rightarrow> string \<Rightarrow> u64 \<times> 'l player_ctx \<Rightarrow> string" where
  "fingerprint_entry sha txid e = to_string_u64 (fst e)
     @ (case digest_for_txid sha (pc_signing_store (snd e)) txid of Some d \<Rightarrow> '':1:'' @ d | None \<Rightarrow> '':0'')"

lemma record_fingerprint_concat:
  "record_fingerprint sha players txid = concat (map (\<lambda>e. fingerprint_entry sha txid e @ '','') players)"
proof -
  have "foldl (\<lambda>acc (pid, ctx). acc @ to_string_u64 pid
      @ (case digest_for_txid sha (pc_signing_store ctx) txid of Some d \<Rightarrow> '':1:'' @ d | None \<Rightarrow> '':0'') @ '','') acc players
    = acc @ concat (map (\<lambda>e. fingerprint_entry sha txid e @ '','') players)" for acc
    by (induction players arbitrary: acc) (auto simp: fingerprint_entry_def)
  then show ?thesis by (simp add: record_fingerprint_def)
qed

lemma fingerprint_entry_no_comma: "CHR '','' \<notin> set (fingerprint_entry sha txid e)"
  by (auto simp: fingerprint_entry_def digest_for_txid_def separators_not_hex separators_not_digits split: option.split)

text \<open>Entries closed by a separator they do not contain can be read back.\<close>

lemma split_at_separator:
  assumes "x @ c # xs = y @ c # ys" "c \<notin> set x" "c \<notin> set y"
  shows "x = y \<and> xs = ys"
  using assms
proof (induction x arbitrary: y)
  case Nil
  then show ?case by (cases y) auto
next
  case (Cons a x)
  then show ?case by (cases y) auto
qed

lemma separated_entries:
  assumes "concat (map (\<lambda>e. f e @ [c]) xs) = concat (map (\<lambda>e. f e @ [c]) ys)" "\<And>e. c \<notin> set (f e)"
  shows "map f xs = map f ys"
  using assms(1)
proof (induction xs arbitrary: ys)
  case Nil
  then show ?case by (cases ys) auto
next
  case (Cons x xs)
  note IH = Cons.IH and prem = Cons.prems
  show ?case
  proof (cases ys)
    case (Cons y ys')
    have "f x @ c # concat (map (\<lambda>e. f e @ [c]) xs) = f y @ c # concat (map (\<lambda>e. f e @ [c]) ys')"
      using prem Cons by simp
    from split_at_separator [OF this assms(2) assms(2)] Cons IH [of ys'] show ?thesis by simp
  qed (use prem in simp)
qed

lemma fingerprint_entry_inject:
  fixes e e' :: "u64 \<times> 'l player_ctx"
  shows "fingerprint_entry sha txid e = fingerprint_entry sha txid e' \<longleftrightarrow> fst e = fst e'
     \<and> digest_for_txid sha (pc_signing_store (snd e)) txid = digest_for_txid sha (pc_signing_store (snd e')) txid"
proof
  assume eq: "fingerprint_entry sha txid e = fingerprint_entry sha txid e'"
  define tail where "tail x = (case x of Some d \<Rightarrow> ''1:'' @ d | None \<Rightarrow> ''0'')" for x :: "string option"
  have f: "fingerprint_entry sha txid e = to_string_u64 (fst e) @ CHR '':'' # tail (digest_for_txid sha (pc_signing_store (snd e)) txid)" for e :: "u64 \<times> 'l player_ctx"
    by (simp add: fingerprint_entry_def tail_def split: option.split)
  from split_at_separator [OF eq [unfolded f] separators_not_digits(2) separators_not_digits(2)]
  show "fst e = fst e' \<and> digest_for_txid sha (pc_signing_store (snd e)) txid = digest_for_txid sha (pc_signing_store (snd e')) txid"
    by (auto simp: tail_def split: option.splits)
qed (simp add: fingerprint_entry_def)

definition player_digest :: "(bytes \<Rightarrow> bytes) \<Rightarrow> ('l, 'pp, 'ps, 'rp, 'rs) world \<Rightarrow> string \<Rightarrow> u64 \<Rightarrow> string option option" where
  "player_digest sha w txid pid = map_option (\<lambda>ctx. digest_for_txid sha (pc_signing_store ctx) txid) (om_find (w_players w) pid)"

text \<open>Two maps with the same image of their values, key by key.\<close>

lemma om_map_values:
  fixes m m' :: "('k::linorder, 'v) omap"
  assumes "om_ok m" "om_ok m'"
  shows "map (\<lambda>e. (fst e, g (snd e))) m = map (\<lambda>e. (fst e, g (snd e))) m'
    \<longleftrightarrow> (\<forall>k. map_option g (om_find m k) = map_option g (om_find m' k))"
proof -
  have ok: "om_ok (map (\<lambda>e. (fst e, g (snd e))) x)" if "om_ok x" for x using that by (simp add: om_ok_def comp_def)
  have find: "om_find (map (\<lambda>e. (fst e, g (snd e))) x) k = map_option g (om_find x k)" for x k
    by (induction x) (auto simp: om_find_Cons)
  show ?thesis using om_ext [OF ok [OF assms(1)] ok [OF assms(2)]] find by metis
qed

lemma map_eq_same: "(\<And>x y. f x = f y \<longleftrightarrow> g x = g y) \<Longrightarrow> map f xs = map f ys \<longleftrightarrow> map g xs = map g ys"
proof (induction xs arbitrary: ys)
  case (Cons x xs)
  then show ?case by (cases ys) auto
qed auto

lemma fingerprint_exact:
  fixes w w' :: "('l, 'pp, 'ps, 'rp, 'rs) world"
  assumes "om_ok (w_players w)" "om_ok (w_players w')"
  shows "record_fingerprint sha (w_players w') txid = record_fingerprint sha (w_players w) txid
    \<longleftrightarrow> player_digest sha w' txid = player_digest sha w txid"
proof -
  let ?f = "fingerprint_entry sha txid" and ?g = "\<lambda>ctx. digest_for_txid sha (pc_signing_store ctx) txid"
  have "record_fingerprint sha (w_players w') txid = record_fingerprint sha (w_players w) txid
      \<longleftrightarrow> map ?f (w_players w') = map ?f (w_players w)"
  proof
    assume "record_fingerprint sha (w_players w') txid = record_fingerprint sha (w_players w) txid"
    then show "map ?f (w_players w') = map ?f (w_players w)"
      unfolding record_fingerprint_concat by (rule separated_entries) (rule fingerprint_entry_no_comma)
  next
    assume "map ?f (w_players w') = map ?f (w_players w)"
    then have "map (\<lambda>x. x @ '','') (map ?f (w_players w')) = map (\<lambda>x. x @ '','') (map ?f (w_players w))" by simp
    then show "record_fingerprint sha (w_players w') txid = record_fingerprint sha (w_players w) txid"
      unfolding record_fingerprint_concat by (simp add: comp_def)
  qed
  also have "\<dots> \<longleftrightarrow> map (\<lambda>e. (fst e, ?g (snd e))) (w_players w') = map (\<lambda>e. (fst e, ?g (snd e))) (w_players w)"
    by (rule map_eq_same) (simp add: fingerprint_entry_inject)
  also have "\<dots> \<longleftrightarrow> player_digest sha w' txid = player_digest sha w txid"
    unfolding om_map_values [OF assms(2,1), of ?g] by (simp add: player_digest_def fun_eq_iff)
  finally show ?thesis .
qed

text \<open>C6: an iteration of the scheduler clears the isolation flag exactly when its step changed, at some
  player, the digest of the record of the ceremony whose turn it was not.\<close>

theorem isolation_check_exact:
  assumes "om_ok (w_players (ds_world s))" and "turn_wf s" and "dual_iteration sha sv s = Some s'"
  shows "ds_others_unchanged s' \<longleftrightarrow> ds_others_unchanged s
    \<and> (\<forall>pid. player_digest sha (ds_world s') (ce_txid (if ds_last_turn s' = Some 0 then ds_b s else ds_a s)) pid
           = player_digest sha (ds_world s) (ce_txid (if ds_last_turn s' = Some 0 then ds_b s else ds_a s)) pid)"
proof -
  have ok: "om_ok (w_players (snd (snd (step sv c (ds_world s)))))" for c
  proof -
    have "players_are {pid. om_find (w_players (ds_world s)) pid \<noteq> None} (ds_world s)"
      using assms(1) by (simp add: players_are_def)
    from step_keeps [OF players_are_kept this, of sv c] show ?thesis by (simp add: players_are_def)
  qed
  from assms(3,2) show ?thesis
  proof (cases rule: dual_iterationE)
    case (a adv)
    have "om_ok (w_players (ds_world s'))" using ok [of "ds_a s"] a(3) by simp
    with fingerprint_exact [OF assms(1) this] a(5) show ?thesis by (simp add: turn_taken_def fun_eq_iff)
  next
    case (b adv)
    have "om_ok (w_players (ds_world s'))" using ok [of "ds_b s"] b(3) by simp
    with fingerprint_exact [OF assms(1) this] b(5) show ?thesis by (simp add: turn_taken_def fun_eq_iff)
  qed
qed


section \<open>A library that stays in its transaction is not blamed\<close>

text \<open>
  The library reaches the transaction store through the four operations of
  \<^verbatim>\<open>signing_persistency\<close>; a call stays in its transaction when all of them name it.
\<close>

definition own_record :: "string \<Rightarrow> ('l, 'pp, 'ps, 'rp, 'rs, 'o) service_call \<Rightarrow> bool" where
  "own_record t f \<longleftrightarrow> (\<forall>e. \<exists>ops. (\<forall>p\<in>set ops. op_txid p = t) \<and> pe_store (snd (f e)) = fold run_signing_op ops (pe_store e))"

definition stays_in_transaction :: "('l, 'pp, 'ps, 'rp, 'rs) cmp_service \<Rightarrow> bool" where
  "stays_in_transaction sv \<longleftrightarrow> (\<forall>a t c d f g h. own_record t (sv_start_signing sv a t c d f g h))
     \<and> (\<forall>t b c. own_record t (sv_mta_response sv t b c)) \<and> (\<forall>t b. own_record t (sv_mta_verify sv t b))
     \<and> (\<forall>t b. own_record t (sv_get_si sv t b)) \<and> (\<forall>t b. own_record t (sv_get_cmp_signature sv t b))"

definition stores_ok :: "('l, 'pp, 'ps, 'rp, 'rs) world \<Rightarrow> bool" where
  "stores_ok w \<longleftrightarrow> om_ok (w_players w) \<and> (\<forall>pid ctx. om_find (w_players w) pid = Some ctx \<longrightarrow> store_ok (pc_signing_store ctx))"

definition record_is :: "string \<Rightarrow> (u64 \<Rightarrow> cmp_signing_metadata option option) \<Rightarrow> ('l, 'pp, 'ps, 'rp, 'rs) world \<Rightarrow> bool" where
  "record_is t D w \<longleftrightarrow> stores_ok w
     \<and> (\<forall>pid. map_option (\<lambda>ctx. store_map (pc_signing_store ctx) t) (om_find (w_players w) pid) = D pid)"

lemma own_record_call:
  assumes "own_record t f" "t' \<noteq> t" "record_is t' D w"
  shows "record_is t' D (snd (call_player pid f w))"
proof (cases "om_find (w_players w) pid")
  case None
  with assms(3) show ?thesis by (simp add: call_player_def)
next
  case (Some ctx)
  let ?e = "env_of w pid ctx"
  obtain ops where ops: "\<forall>p\<in>set ops. op_txid p = t" "pe_store (snd (f ?e)) = fold run_signing_op ops (pe_store ?e)"
    using assms(1) by (auto simp: own_record_def)
  have ok: "store_ok (pe_store ?e)" using assms(3) Some by (simp add: record_is_def stores_ok_def env_of_def)
  have "store_map (pe_store (snd (f ?e))) t' = store_map (pc_signing_store ctx) t'" "store_ok (pe_store (snd (f ?e)))"
    using signing.steps_frame_filter [OF ok ops(1) assms(2)] signing.steps_ok [OF ok, of ops] ops(2)
    by (simp_all add: env_of_def)
  moreover have "D pid = Some (store_map (pc_signing_store ctx) t')"
    using assms(3) Some unfolding record_is_def by (metis option.simps(9))
  ultimately show ?thesis
    using assms(3) Some
    by (auto simp: record_is_def stores_ok_def call_player_def put_env_def case_prod_beta store_simps)
qed

lemma stays_keeps: "stays_in_transaction sv \<Longrightarrow> t' \<noteq> t \<Longrightarrow> keeps_for sv t (record_is t' D)"
  unfolding keeps_for_def stays_in_transaction_def by (blast intro: own_record_call)

lemma record_is_digest: "record_is t D w \<Longrightarrow> record_is t D w' \<Longrightarrow> player_digest sha w' t = player_digest sha w t"
proof (rule ext)
  fix pid assume "record_is t D w" "record_is t D w'"
  then have "map_option (\<lambda>ctx. store_map (pc_signing_store ctx) t) (om_find (w_players w') pid)
      = map_option (\<lambda>ctx. store_map (pc_signing_store ctx) t) (om_find (w_players w) pid)"
    by (simp add: record_is_def)
  then show "player_digest sha w' t pid = player_digest sha w t pid"
    by (cases "om_find (w_players w) pid"; cases "om_find (w_players w') pid")
      (simp_all add: player_digest_def store_reads_by_map)
qed

text \<open>A step of a ceremony leaves the fingerprint of another transaction alone.\<close>

lemma step_leaves_others:
  assumes "stays_in_transaction sv" "ce_txid c \<noteq> t" "stores_ok w" "step sv c w = (adv, c', w')"
  shows "record_fingerprint sha (w_players w') t = record_fingerprint sha (w_players w) t \<and> stores_ok w'"
proof -
  let ?D = "\<lambda>pid. map_option (\<lambda>ctx. store_map (pc_signing_store ctx) t) (om_find (w_players w) pid)"
  have w: "record_is t ?D w" using assms(3) by (simp add: record_is_def)
  have "keeps_for sv (ce_txid c) (record_is t ?D)" by (rule stays_keeps [OF assms(1)]) (use assms(2) in simp)
  from step_keeps [OF this w] assms(4) have w': "record_is t ?D w'" by simp
  then have "stores_ok w'" by (simp add: record_is_def)
  with assms(3) fingerprint_exact [of w w' sha t] record_is_digest [OF w w'] show ?thesis by (simp add: stores_ok_def)
qed

definition isolated :: "('l, 'pp, 'ps, 'rp, 'rs) dual_state \<Rightarrow> bool" where
  "isolated s \<longleftrightarrow> progress_ok s \<and> ds_others_unchanged s \<and> stores_ok (ds_world s) \<and> ce_txid (ds_a s) \<noteq> ce_txid (ds_b s)"

lemma isolated_iteration:
  assumes "stays_in_transaction sv" "isolated s" "dual_iteration sha sv s = Some s'"
  shows "isolated s'"
proof -
  have p: "progress_ok s" and wf: "turn_wf s" and ok: "ceremony_ok (ds_a s)" "ceremony_ok (ds_b s)" "stores_ok (ds_world s)"
    and t: "ce_txid (ds_a s) \<noteq> ce_txid (ds_b s)"
    using assms(2) by (simp_all add: isolated_def progress_ok_def)
  have p': "progress_ok s'" by (rule progress_iteration [OF p assms(3)])
  from assms(3) wf show ?thesis
  proof (cases rule: dual_iterationE)
    case (a adv)
    have "ce_txid (ds_a s') = ce_txid (ds_a s)"
      using step_unfinished(2) [OF a(2) ok(1) a(3)] by (simp add: ceremony_setup_def)
    with step_leaves_others [OF assms(1) t ok(3) a(3), of sha] a(4,5) assms(2) p'
    show ?thesis by (simp add: isolated_def turn_taken_def)
  next
    case (b adv)
    have "ce_txid (ds_b s') = ce_txid (ds_b s)"
      using step_unfinished(2) [OF b(2) ok(2) b(3)] by (simp add: ceremony_setup_def)
    with step_leaves_others [OF assms(1) not_sym [OF t] ok(3) b(3), of sha] b(4,5) assms(2) p'
    show ?thesis by (simp add: isolated_def turn_taken_def)
  qed
qed

lemma make_players_stores:
  assumes "om_find (make_players sv ids) pid = Some ctx"
  shows "pc_signing_store ctx = signing_store_init"
proof -
  define P where "P m \<longleftrightarrow> om_ok m \<and> (\<forall>pid ctx. om_find m pid = Some ctx \<longrightarrow> pc_signing_store ctx = signing_store_init)"
    for m :: "(u64, 'a player_ctx) omap"
  have "P (om_emplace pid (player_ctx_new sv pid) m)" if "P m" for m pid
    using that by (auto simp: P_def om_emplace_find om_ok_emplace player_ctx_new_def split: if_splits)
  then have "P (foldl (\<lambda>m pid. om_emplace pid (player_ctx_new sv pid) m) m ids)" if "P m" for m
    using that by (induction ids arbitrary: m) simp_all
  from this [of "[]"] assms show ?thesis by (simp add: P_def make_players_def)
qed

lemma isolated_start: "isolated (dual_start lib sv se seed sch g)"
  using counters_start(1) [of lib sv se seed sch g] make_players_keys(1) [of sv "se_ids se"]
  by (simp add: isolated_def) (auto simp: stores_ok_def dual_start_def Let_def ceremony_new_def signing_store_init_ok
      dest: make_players_stores)

text \<open>C12: with a library whose calls reach the transaction store only through operations on the
  transaction they were called for, no schedule makes a run report that one ceremony touched the
  record of the other.\<close>

theorem no_false_isolation_finding:
  assumes "stays_in_transaction sv" and "fst (dual_run lib al sv seed schedule elapsed se g) = Some r"
  shows "dr_state_isolation r"
proof (cases "dual_contract se")
  case False
  then obtain d where "fst (dual_run lib al sv seed schedule elapsed se g)
      = Some (dual_result_default\<lparr>dr_harness_fault := True, dr_detail := d\<rparr>)"
    using dual_run_refused [of se lib al sv] by (metis fst_conv)
  with assms(2) show ?thesis by (auto simp: dual_result_default_def)
next
  case True
  let ?e = "dual_end lib sv seed schedule se g"
  have "isolated ?e" by (rule dual_loop_invariant [where I = isolated, OF isolated_start isolated_iteration [OF assms(1)]])
  moreover from True assms(2) obtain ob where ob: "dual_observe lib al se ?e = Some ob" and r: "r = dual_conclude ?e elapsed ob"
    by (rule dual_run_result)
  moreover have "ob_other_records_unchanged ob = ds_others_unchanged ?e"
    using ob by (auto simp: dual_observe_def Let_def split: if_splits option.splits)
  ultimately show ?thesis by (simp add: dual_conclude_def evaluate_dual_oracles_def isolated_def Let_def)
qed

lemma own_record_Pair: "own_record t (Pair x)"
  by (auto simp: own_record_def intro: exI [of _ "[]"])

lemma mute_stays: "stays_in_transaction mute_service"
  by (simp add: stays_in_transaction_def mute_service_def own_record_Pair)

theorem no_false_isolation_finding_witness:
  "\<exists>r. fst (dual_run toy_lib toy_algebra mute_service 5 [0, 1, 0] 7 toy_session g_state_init) = Some r \<and> dr_state_isolation r"
  using mute_completes [of "[0, 1, 0]"] no_false_isolation_finding [OF mute_stays] by metis

text \<open>A library that, asked to start ceremony A, writes a record for ceremony B.\<close>

definition meddling_service :: "(unit, nat, nat, nat, nat) cmp_service" where
  "meddling_service = mute_service\<lparr>sv_start_signing := (\<lambda>key txid alg data meta strs ids e.
     (Inr [], e\<lparr>pe_store := snd (store_cmp_signing_data ''opus-dual-tx-b'' sample_metadata (pe_store e))\<rparr>))\<rparr>"

lemma meddling_step:
  "case dual_iteration (pad 32) meddling_service (dual_start toy_lib meddling_service toy_session 5 [0] g_state_init) of
     None \<Rightarrow> False
   | Some s' \<Rightarrow> ds_last_turn s' = Some 0
       \<and> map_option (\<lambda>ctx. has (pc_signing_store ctx) ''opus-dual-tx-b'') (om_find (w_players (ds_world s')) 1) = Some True"
  by code_simp

theorem isolation_check_exact_witness:
  "\<exists>s'. dual_iteration (pad 32) meddling_service (dual_start toy_lib meddling_service toy_session 5 [0] g_state_init) = Some s'
     \<and> \<not> ds_others_unchanged s'"
proof -
  let ?s = "dual_start toy_lib meddling_service toy_session 5 [0] g_state_init" and ?b = "''opus-dual-tx-b''"
  obtain s' where s': "dual_iteration (pad 32) meddling_service ?s = Some s'" "ds_last_turn s' = Some 0"
    and h: "map_option (\<lambda>ctx. has (pc_signing_store ctx) ?b) (om_find (w_players (ds_world s')) 1) = Some True"
    using meddling_step by (auto split: option.splits)
  have ok: "om_ok (w_players (ds_world ?s))" using players_start [of toy_session toy_lib meddling_service 5 "[0]" g_state_init] by (simp add: players_are_def)
  have b: "ce_txid (ds_b ?s) = ?b" by (simp add: dual_start_def ceremony_new_def Let_def)
  from h have "player_digest (pad 32) (ds_world s') ?b 1 \<noteq> Some None"
    by (auto simp: player_digest_def store_reads_by_map)
  moreover have "player_digest (pad 32) (ds_world ?s) ?b 1 = Some None"
    using make_players_keys(2) [of meddling_service "[1, 2, 3]" 1] make_players_stores [of meddling_service "[1, 2, 3]" 1]
    by (auto simp: player_digest_def dual_start_def Let_def toy_session_def store_reads_by_map signing_store_init_def store_map_def)
  moreover have "ds_others_unchanged s' \<Longrightarrow> player_digest (pad 32) (ds_world s') ?b 1 = player_digest (pad 32) (ds_world ?s) ?b 1"
    using isolation_check_exact [OF ok dual_start_simps(1) s'(1)] by (simp add: s'(2) b)
  ultimately have "\<not> ds_others_unchanged s'" by auto
  with s'(1) show ?thesis by blast
qed

section \<open>A run is reproducible\<close>

text \<open>The comparison the harness uses is equality with the duration left out.\<close>

lemma semantic_equal_iff: "semantic_equal l r \<longleftrightarrow> l\<lparr>dr_elapsed_ms := 0\<rparr> = r\<lparr>dr_elapsed_ms := 0\<rparr>"
proof -
  have rep: "semantic_equal_report x y \<longleftrightarrow> x = y" for x y
    by (cases x; cases y) (auto simp: semantic_equal_report_def)
  show ?thesis by (cases l; cases r) (auto simp: semantic_equal_def rep)
qed

definition dual_sim :: "('l, 'pp, 'ps, 'rp, 'rs) dual_state \<Rightarrow> ('l, 'pp, 'ps, 'rp, 'rs) dual_state \<Rightarrow> bool" where
  "dual_sim s t \<longleftrightarrow> world_sim (ds_world s) (ds_world t) \<and> t = s\<lparr>ds_world := ds_world t\<rparr>"

definition sim_step :: "bool \<times> ceremony \<times> ('l, 'pp, 'ps, 'rp, 'rs) world \<Rightarrow> bool \<times> ceremony \<times> ('l, 'pp, 'ps, 'rp, 'rs) world \<Rightarrow> bool" where
  "sim_step p q \<longleftrightarrow> fst p = fst q \<and> fst (snd p) = fst (snd q) \<and> world_sim (snd (snd p)) (snd (snd q))"

lemma end_round_sim: "sim3 p q \<Longrightarrow> sim_step (end_round n keep c p) (end_round n keep c q)"
  by (cases p; cases q; cases "fst p") (auto simp: sim3_def sim_step_def end_round_def)

lemma run_round_sim3:
  "(\<And>inp. blind_call (f inp)) \<Longrightarrow> world_sim w v
     \<Longrightarrow> sim3 (run_round vw (\<lambda>pid inp. call_player pid (f inp)) ids outs k w)
             (run_round vw (\<lambda>pid inp. call_player pid (f inp)) ids outs k v)"
  unfolding sim3_def by (rule call_simulation.round_sim [OF player_call_simulation])

lemma step_sim:
  assumes "stream_only sv" "world_sim w v"
  shows "sim_step (step sv c w) (step sv c v)"
proof -
  note so = assms(1) [unfolded stream_only_def]
  let ?c = "c\<lparr>ce_state := RUNNING\<rparr>"
  have rounds: "sim_step (ceremony_round1 sv ?c w) (ceremony_round1 sv ?c v)"
    "sim_step (ceremony_round2 sv ?c w) (ceremony_round2 sv ?c v)"
    "sim_step (ceremony_round3 sv ?c w) (ceremony_round3 sv ?c v)"
    "sim_step (ceremony_round4 sv ?c w) (ceremony_round4 sv ?c v)"
    unfolding ceremony_rounds by (rule end_round_sim, rule run_round_sim3 [OF _ assms(2)], use so in blast)+
  have "blind_call (sv_get_cmp_signature sv a b)" for a b using so by blast
  from call_player_sim [OF this assms(2)] have "sim_step (ceremony_round5 sv ?c w) (ceremony_round5 sv ?c v)"
    by (simp add: sim_step_def ceremony_round5_def case_prod_beta split: sum.split)
  with rounds assms(2) show ?thesis by (simp add: step_def sim_step_def Let_def)
qed

lemma dual_iteration_sim:
  assumes "stream_only sv" "dual_sim s t"
  shows "rel_option dual_sim (dual_iteration sha sv s) (dual_iteration sha sv t)"
proof -
  obtain v where wv: "world_sim (ds_world s) v" and t: "t = s\<lparr>ds_world := v\<rparr>" using assms(2) by (auto simp: dual_sim_def)
  have pl: "w_players v = w_players (ds_world s)" using wv by (simp add: world_sim_def)
  obtain turn rest where p: "pick_turn s = (turn, rest)" by fastforce
  then have p': "pick_turn t = (turn, rest)" by (cases "ds_cursor s") (simp_all add: t pick_turn_def Let_def cong: if_cong)
  obtain adv c' w' where st: "step sv (if turn = 0 then ds_a s else ds_b s) (ds_world s) = (adv, c', w')" by (metis prod.collapse)
  obtain adv' c'' v' where st': "step sv (if turn = 0 then ds_a s else ds_b s) v = (adv', c'', v')" by (metis prod.collapse)
  from step_sim [OF assms(1) wv, of "if turn = 0 then ds_a s else ds_b s"] st st'
  have e: "adv' = adv" "c'' = c'" "world_sim w' v'" by (simp_all add: sim_step_def)
  then have pl': "w_players v' = w_players w'" by (simp add: world_sim_def)
  show ?thesis
  proof (cases "finished (ds_a s) \<and> finished (ds_b s)")
    case True
    then show ?thesis by (simp add: dual_iteration_def t)
  next
    case False
    then have "turn = 0 \<and> \<not> finished (ds_a s) \<or> turn = 1 \<and> \<not> finished (ds_b s)" using pick_turn_cases [OF False] p by simp
    with False st st' e show ?thesis
      unfolding dual_iteration_def p p'
      by (elim disjE) (simp_all add: t pl pl' dual_sim_def Let_def split del: if_split cong: if_cong)
  qed
qed

lemma dual_loop_sim:
  "stream_only sv \<Longrightarrow> dual_sim s t \<Longrightarrow> dual_sim (dual_loop sha sv n s) (dual_loop sha sv n t)"
proof (induction n arbitrary: s t)
  case (Suc n)
  from dual_iteration_sim [OF Suc.prems, of sha] Suc show ?case
    by (cases "dual_iteration sha sv s"; cases "dual_iteration sha sv t") auto
qed simp

lemma dual_sim_results:
  assumes "dual_sim s t"
  shows "dual_observe lib al se s = dual_observe lib al se t" "dual_conclude s el ob = dual_conclude t el ob"
    "w_key_stores (ds_world s) = w_key_stores (ds_world t)"
proof -
  obtain v where wv: "world_sim (ds_world s) v" and t: "t = s\<lparr>ds_world := v\<rparr>" using assms by (auto simp: dual_sim_def)
  then have eq: "w_key_stores (ds_world s) = w_key_stores v" "record_present (ds_world s) = record_present v"
    by (simp_all add: world_sim_def record_present_def fun_eq_iff)
  show "dual_observe lib al se s = dual_observe lib al se t" "dual_conclude s el ob = dual_conclude t el ob"
    "w_key_stores (ds_world s) = w_key_stores (ds_world t)"
    by (simp_all add: t dual_observe_def dual_conclude_def eq Let_def)
qed

text \<open>C18: two runs of the same seed and schedule on the same session are equal for the harness's
  comparison, whatever was drawn before them and however long they took, and leave the same key
  stores, for a library that sees the generator only through the bytes it draws. (The generator is the
  installed one; the dual-session fuzzing program does not install it.)\<close>

theorem dual_run_reproducible:
  assumes "stream_only sv"
  shows "rel_option semantic_equal (fst (dual_run lib al sv seed schedule elapsed se g))
      (fst (dual_run lib al sv seed schedule elapsed' se h))
    \<and> fst (snd (dual_run lib al sv seed schedule elapsed se g)) = fst (snd (dual_run lib al sv seed schedule elapsed' se h))"
proof (cases "dual_contract se")
  case False
  from dual_run_refused [OF False, of lib al sv] obtain d where "\<And>seed schedule elapsed g. dual_run lib al sv seed schedule elapsed se g
    = (Some (dual_result_default\<lparr>dr_harness_fault := True, dr_detail := d\<rparr>), se, g)" by blast
  then show ?thesis by (simp add: semantic_equal_iff)
next
  case True
  have "dual_sim (dual_start lib sv se seed schedule g) (dual_start lib sv se seed schedule h)"
    by (simp add: dual_sim_def dual_start_def world_sim_def rng_sim_reseed Let_def)
  note s = dual_sim_results [OF dual_loop_sim [OF assms this, of "c_sha256 lib" max_steps]]
  have "rel_option semantic_equal (map_option (dual_conclude st el) x) (map_option (dual_conclude st el') x)" for st x el el'
    by (cases x) (simp_all add: semantic_equal_iff dual_conclude_def Let_def)
  moreover have "dual_conclude (dual_end lib sv seed schedule se g) = dual_conclude (dual_end lib sv seed schedule se h)"
    by (intro ext s(2))
  ultimately show ?thesis unfolding dual_run_eq [OF True] Let_def s(1) [of lib al se] s(3) by simp
qed

lemma mute_stream_only: "stream_only mute_service"
  by (simp add: stream_only_def blind_call_def mute_service_def)

theorem dual_run_reproducible_witness:
  "rel_option semantic_equal (fst (dual_run toy_lib toy_algebra mute_service 5 [0, 1] 7 toy_session g_state_init))
     (fst (dual_run toy_lib toy_algebra mute_service 5 [0, 1] 900 toy_session (reseed (pad 64) 3 g_state_init)))"
  using dual_run_reproducible [OF mute_stream_only] by blast

section \<open>What the findings mean\<close>

lemma setup_iteration:
  assumes "progress_ok s \<and> ceremony_setup (ds_a s) = x \<and> ceremony_setup (ds_b s) = y" "dual_iteration sha sv s = Some s'"
  shows "progress_ok s' \<and> ceremony_setup (ds_a s') = x \<and> ceremony_setup (ds_b s') = y"
proof -
  have p: "progress_ok s" and wf: "turn_wf s" and ok: "ceremony_ok (ds_a s)" "ceremony_ok (ds_b s)"
    using assms(1) by (simp_all add: progress_ok_def)
  have p': "progress_ok s'" by (rule progress_iteration [OF p assms(2)])
  from assms(2) wf show ?thesis
  proof (cases rule: dual_iterationE)
    case (a adv)
    then show ?thesis using step_unfinished(2) [OF a(2) ok(1) a(3)] assms(1) p' by simp
  next
    case (b adv)
    then show ?thesis using step_unfinished(2) [OF b(2) ok(2) b(3)] assms(1) p' by simp
  qed
qed

lemma dual_end_setup:
  fixes se :: "('pp, 'ps, 'rp, 'rs) dual_session"
  defines "signers \<equiv> dual_signers (se_ids se) (s_t (se_snap se))"
  shows "ceremony_setup (ds_a (dual_end lib sv seed schedule se g)) = ceremony_setup (ceremony_new 0 (se_key_id se) signers [44, 0, 0, 0, 0])
    \<and> ceremony_setup (ds_b (dual_end lib sv seed schedule se g)) = ceremony_setup (ceremony_new 1 (se_key_id se) signers [44, 0, 0, 0, 0])"
  using dual_loop_invariant [where I = "\<lambda>s. progress_ok s \<and> ceremony_setup (ds_a s) = _ \<and> ceremony_setup (ds_b s) = _",
      OF conjI [OF counters_start(1) conjI [OF refl refl]] setup_iteration, of lib sv se seed schedule g]
  by (simp add: dual_start_def Let_def signers_def)

definition observed :: "('l, 'pp, 'ps, 'rp, 'rs) dual_state \<Rightarrow> bool" where
  "observed s \<longleftrightarrow> ce_state (ds_a s) = COMPLETED \<and> ce_state (ds_b s) = COMPLETED \<and> ce_sigs (ds_a s) \<noteq> [] \<and> ce_sigs (ds_b s) \<noteq> []"

text \<open>The key derived for the path of the ceremonies accepts a signature for a message.\<close>

definition verifies :: "'c algebra_lib \<Rightarrow> snapshot \<Rightarrow> recoverable_signature \<Rightarrow> bytes \<Rightarrow> bool" where
  "verifies al snap sig msg \<longleftrightarrow>
     (\<exists>key. derived_key al snap [44, 0, 0, 0, 0] (replicate 32 0) = Some key \<and> accepts al key sig msg)"

lemma length_ceremony_message [simp]: "length (ceremony_message i) = 32"
  by (simp add: ceremony_message_def)

lemma ceremony_messages_distinct: "ceremony_message 0 \<noteq> ceremony_message 1"
  by code_simp

lemma oracle_verifies:
  assumes "key_in_bounds snap" "length msg = 32"
  obtains d where "oracle_signature_valid al snap msg [44, 0, 0, 0, 0] (replicate 32 0) sig False = Some (verifies al snap sig msg, d)"
proof -
  obtain v d where o': "oracle_signature_valid al snap msg [44, 0, 0, 0, 0] (replicate 32 0) sig False = Some (v, d)"
    using oracles_defined(1) [OF assms(1)] by fastforce
  moreover have "v \<longleftrightarrow> verifies al snap sig msg"
    using oracle_signature_valid_true [OF assms(1), of al msg "[44, 0, 0, 0, 0]" "replicate 32 0" sig False] o' assms(2)
    by (auto simp: verifies_def)
  ultimately show ?thesis using that by simp
qed

lemma dual_end_observe:
  fixes se :: "('pp, 'ps, 'rp, 'rs) dual_session"
  assumes "key_in_bounds (se_snap se)" "s = dual_end lib sv seed schedule se g" "dual_observe lib al se s = Some ob"
  defines "sa \<equiv> hd (ce_sigs (ds_a s))" and "sb \<equiv> hd (ce_sigs (ds_b s))"
    and "observer \<equiv> hd (dual_signers (se_ids se) (s_t (se_snap se)))"
  shows "ob_signatures_observed ob = observed s"
    and "ob_both_completed ob = (ce_state (ds_a s) = COMPLETED \<and> ce_state (ds_b s) = COMPLETED)"
    and "observed s \<Longrightarrow> ob_signature_a_valid ob = verifies al (se_snap se) sa (ceremony_message 0)
      \<and> ob_signature_b_valid ob = verifies al (se_snap se) sb (ceremony_message 1)
      \<and> ob_cross_ab ob = verifies al (se_snap se) sa (ceremony_message 1)
      \<and> ob_cross_ba ob = verifies al (se_snap se) sb (ceremony_message 0)
      \<and> ob_messages_distinct ob \<and> ob_nonce_equal ob = (take 32 (sg_r sa) = take 32 (sg_r sb))"
    and "ob_other_records_unchanged ob = ds_others_unchanged s"
    and "ob_rollback_a_clean ob = (ce_state (ds_a s) = COMPLETED \<longrightarrow> \<not> record_present (ds_world s) observer ''opus-dual-tx-a'')"
    and "ob_rollback_b_clean ob = (ce_state (ds_b s) = COMPLETED \<longrightarrow> \<not> record_present (ds_world s) observer ''opus-dual-tx-b'')"
    and "ob_key_stores_unchanged ob = (aggregate_key_store_digest (crypto_lib.truncate lib) (se_key_stores se)
           = aggregate_key_store_digest (crypto_lib.truncate lib) (w_key_stores (ds_world s)))"
    and "ob_harness_fault ob = (ce_state (ds_a s) = FAULTED \<or> ce_state (ds_b s) = FAULTED)"
proof -
  have fields: "ce_txid (ds_a s) = ''opus-dual-tx-a''" "ce_txid (ds_b s) = ''opus-dual-tx-b''"
    "ce_path (ds_a s) = [44, 0, 0, 0, 0]" "ce_path (ds_b s) = [44, 0, 0, 0, 0]"
    "ce_chaincode (ds_a s) = replicate 32 0" "ce_chaincode (ds_b s) = replicate 32 0"
    "ce_expected_message (ds_a s) = ceremony_message 0" "ce_expected_message (ds_b s) = ceremony_message 1"
    using dual_end_setup [of lib sv se seed schedule g] by (simp_all add: assms(2) ceremony_setup_def ceremony_new_def)
  obtain d1 d2 d3 d4 where
    "oracle_signature_valid al (se_snap se) (ceremony_message 0) [44, 0, 0, 0, 0] (replicate 32 0) sa False
       = Some (verifies al (se_snap se) sa (ceremony_message 0), d1)"
    "oracle_signature_valid al (se_snap se) (ceremony_message 1) [44, 0, 0, 0, 0] (replicate 32 0) sb False
       = Some (verifies al (se_snap se) sb (ceremony_message 1), d2)"
    "oracle_signature_valid al (se_snap se) (ceremony_message 1) [44, 0, 0, 0, 0] (replicate 32 0) sa False
       = Some (verifies al (se_snap se) sa (ceremony_message 1), d3)"
    "oracle_signature_valid al (se_snap se) (ceremony_message 0) [44, 0, 0, 0, 0] (replicate 32 0) sb False
       = Some (verifies al (se_snap se) sb (ceremony_message 0), d4)"
    using oracle_verifies [OF assms(1) length_ceremony_message] by metis
  note ob = assms(3) [unfolded dual_observe_def fields sa_def [symmetric] sb_def [symmetric] observer_def [symmetric]
      this Let_def option.map prod.case option.case fst_conv]
  show "ob_signatures_observed ob = observed s" "ob_both_completed ob = (ce_state (ds_a s) = COMPLETED \<and> ce_state (ds_b s) = COMPLETED)"
    "ob_other_records_unchanged ob = ds_others_unchanged s"
    "ob_rollback_a_clean ob = (ce_state (ds_a s) = COMPLETED \<longrightarrow> \<not> record_present (ds_world s) observer ''opus-dual-tx-a'')"
    "ob_rollback_b_clean ob = (ce_state (ds_b s) = COMPLETED \<longrightarrow> \<not> record_present (ds_world s) observer ''opus-dual-tx-b'')"
    "ob_key_stores_unchanged ob = (aggregate_key_store_digest (crypto_lib.truncate lib) (se_key_stores se)
           = aggregate_key_store_digest (crypto_lib.truncate lib) (w_key_stores (ds_world s)))"
    "ob_harness_fault ob = (ce_state (ds_a s) = FAULTED \<or> ce_state (ds_b s) = FAULTED)"
    "observed s \<Longrightarrow> ob_signature_a_valid ob = verifies al (se_snap se) sa (ceremony_message 0)
      \<and> ob_signature_b_valid ob = verifies al (se_snap se) sb (ceremony_message 1)
      \<and> ob_cross_ab ob = verifies al (se_snap se) sa (ceremony_message 1)
      \<and> ob_cross_ba ob = verifies al (se_snap se) sb (ceremony_message 0)
      \<and> ob_messages_distinct ob \<and> ob_nonce_equal ob = (take 32 (sg_r sa) = take 32 (sg_r sb))"
    using ob ceremony_messages_distinct by (auto simp: observed_def split: if_splits)
qed

text \<open>C10: on an installed session whose snapshot has its public key, the findings of a run say what they
  claim. Signatures are valid when both ceremonies produced one and each verifies its own message
  under the derived key; they cross when one verifies the message of the other; the nonce is reused
  when both signatures carry the same r (the messages always differ); the rollback is clean when the
  first signer keeps no record of a completed ceremony; a harness fault is a faulted ceremony, or two
  completed ones that did not both return a signature; and the run is a finding exactly when a
  signature crosses, the nonce repeats, a record of the other ceremony or a key store changed, a
  record was left behind, or two completed ceremonies lack two valid signatures.\<close>

theorem dual_findings_meaning:
  assumes "se_ok se" and "0 < s_t (se_snap se)" and "unat (s_t (se_snap se)) \<le> length (se_ids se)"
    and "key_in_bounds (se_snap se)"
    and "s = dual_loop (c_sha256 lib) sv max_steps (dual_start lib sv se seed schedule g)"
    and "fst (dual_run lib al sv seed schedule elapsed se g) = Some r"
    and "sa = hd (ce_sigs (ds_a s))" and "sb = hd (ce_sigs (ds_b s))"
    and "observer = hd (dual_signers (se_ids se) (s_t (se_snap se)))"
  shows "(dr_signatures_valid r \<longleftrightarrow> observed s \<and> verifies al (se_snap se) sa (ceremony_message 0)
             \<and> verifies al (se_snap se) sb (ceremony_message 1))
    \<and> (dr_cross_session_verification r \<longleftrightarrow> observed s \<and> (verifies al (se_snap se) sa (ceremony_message 1)
             \<or> verifies al (se_snap se) sb (ceremony_message 0)))
    \<and> (dr_nonce_reuse r \<longleftrightarrow> observed s \<and> take 32 (sg_r sa) = take 32 (sg_r sb))
    \<and> (dr_rollback_clean r \<longleftrightarrow>
          (ce_state (ds_a s) = COMPLETED \<longrightarrow> \<not> record_present (ds_world s) observer ''opus-dual-tx-a'')
        \<and> (ce_state (ds_b s) = COMPLETED \<longrightarrow> \<not> record_present (ds_world s) observer ''opus-dual-tx-b''))
    \<and> (dr_harness_fault r \<longleftrightarrow> ce_state (ds_a s) = FAULTED \<or> ce_state (ds_b s) = FAULTED
        \<or> ce_state (ds_a s) = COMPLETED \<and> ce_state (ds_b s) = COMPLETED \<and> \<not> observed s)
    \<and> (any_finding r \<longleftrightarrow> dr_cross_session_verification r \<or> dr_nonce_reuse r \<or> \<not> ds_others_unchanged s
        \<or> \<not> dr_rollback_clean r
        \<or> aggregate_key_store_digest (crypto_lib.truncate lib) (se_key_stores se)
            \<noteq> aggregate_key_store_digest (crypto_lib.truncate lib) (w_key_stores (ds_world s))
        \<or> ce_state (ds_a s) = COMPLETED \<and> ce_state (ds_b s) = COMPLETED \<and> \<not> dr_signatures_valid r)"
proof -
  have c: "dual_contract se" using assms(1-3) by (simp add: dual_contract_def)
  from c assms(6) obtain ob where ob: "dual_observe lib al se s = Some ob" and r: "r = dual_conclude s elapsed ob"
    unfolding assms(5) by (rule dual_run_result)
  note o' = dual_end_observe [OF assms(4,5) ob]
  show ?thesis
    using o' unfolding r dual_conclude_def evaluate_dual_oracles_def any_finding_def Let_def assms(7-9)
    by (cases "observed s") simp_all
qed

theorem dual_findings_meaning_witness:
  "\<exists>r. fst (dual_run toy_lib toy_algebra mute_service 5 [0, 1] 7 toy_session g_state_init) = Some r
     \<and> \<not> dr_harness_fault r \<and> dr_signatures_valid r"
proof -
  let ?s = "dual_end toy_lib mute_service 5 [0, 1] toy_session g_state_init"
  obtain r where r: "fst (dual_run toy_lib toy_algebra mute_service 5 [0, 1] 7 toy_session g_state_init) = Some r"
    by (rule mute_completes [of "[0, 1]"])
  have k: "se_ok toy_session" "0 < s_t (se_snap toy_session)" "unat (s_t (se_snap toy_session)) \<le> length (se_ids toy_session)"
    using mute_contract(1) by (simp_all add: dual_contract_def)
  have sigs: "map sg_r (ce_sigs (ds_a ?s)) = [ceremony_message 0] \<and> map sg_r (ce_sigs (ds_b ?s)) = [ceremony_message 1]"
    by code_simp
  have d: "ce_state (ds_a ?s) = COMPLETED" "ce_state (ds_b ?s) = COMPLETED"
    using never_throws_completes [OF mute_contract(3,1)] by simp_all
  have v: "sg_r sig = msg \<Longrightarrow> verifies toy_algebra (se_snap toy_session) sig msg" for sig msg
    by (simp add: verifies_def derived_key_def make_algebra_def toy_algebra_def accepts_def toy_session_def toy_fixture_def)
  have "observed ?s" "sg_r (hd (ce_sigs (ds_a ?s))) = ceremony_message 0" "sg_r (hd (ce_sigs (ds_b ?s))) = ceremony_message 1"
    using sigs d by (auto simp: observed_def)
  with dual_findings_meaning [OF k mute_contract(2) refl r refl refl refl] v d r show ?thesis by simp
qed

section \<open>The session outlives the run\<close>

lemma dual_session_new_eq: "dual_session_new = session_new"
  by (intro ext) (simp add: dual_session_new_def session_new_def)

text \<open>On a session as its constructor makes it, with a library that only reads key stores, a run
  leaves the session exactly as it was, whatever the schedule, and reports the key stores
  unchanged.\<close>

theorem dual_run_leaves_session_unchanged:
  assumes "read_only_keys sv" and "se = snd (dual_session_new lib snap key_id)"
  shows "fst (snd (dual_run lib al sv seed schedule elapsed se g)) = se
    \<and> pred_option dr_key_store_unchanged (fst (dual_run lib al sv seed schedule elapsed se g))"
proof (cases "dual_contract se")
  case False
  from dual_run_refused [OF False, of lib al sv] obtain d where "\<And>seed schedule elapsed g. dual_run lib al sv seed schedule elapsed se g
    = (Some (dual_result_default\<lparr>dr_harness_fault := True, dr_detail := d\<rparr>), se, g)" by blast
  then show ?thesis by (simp add: dual_result_default_def)
next
  case True
  let ?e = "dual_end lib sv seed schedule se g"
  have "session_stores se" unfolding assms(2) dual_session_new_eq by (rule session_new_stores)
  then have "key_inv (se_key_stores se) (ds_world (dual_start lib sv se seed schedule g))"
    using make_players_keys [of sv "se_ids se"] by (auto simp: key_inv_def dual_start_def session_stores_def Let_def)
  moreover have "keeps_for sv t (key_inv (se_key_stores se))" for t
    by (rule service_keeps_for [OF read_only_keeps [OF assms(1)]])
  moreover have "interleaving finished (advance sv) (ceremonies (dual_start lib sv se seed schedule g)) (map unat (ds_trace ?e)) (ceremonies ?e)"
    using dual_loop_runs [of "dual_start lib sv se seed schedule g" sv "c_sha256 lib" max_steps] by (simp add: runs_from_def)
  ultimately have "key_inv (se_key_stores se) (ds_world ?e)"
    using interleaving_world [where I = "key_inv (se_key_stores se)"] step_keeps [where I = "key_inv (se_key_stores se)"]
    by (metis snd_conv)
  then have w: "w_key_stores (ds_world ?e) = se_key_stores se" by (simp add: key_inv_def)
  have "pred_option dr_key_store_unchanged (map_option (dual_conclude ?e elapsed) (dual_observe lib al se ?e))"
    by (auto simp: dual_observe_def w dual_conclude_def evaluate_dual_oracles_def Let_def option.pred_map split: option.split)
  then show ?thesis by (simp add: dual_run_eq [OF True] Let_def w)
qed

lemma mute_read_only: "read_only_keys mute_service"
  by (simp add: read_only_keys_def reads_keys_def mute_service_def)

theorem dual_run_leaves_session_unchanged_witness:
  "fst (snd (dual_run toy_lib toy_algebra mute_service 5 [1, 0] 7 (snd (dual_session_new toy_lib toy_fixture ''k'')) g_state_init))
     = snd (dual_session_new toy_lib toy_fixture ''k'')"
  using dual_run_leaves_session_unchanged [OF mute_read_only refl] by blast

end
