(* ===== verification/Posix.thy ===== *)
theory Posix
  imports Prelude
begin

text \<open>
  The part of the operating system the telemetry of the fuzzers uses: a file system, the calls of
  \<^verbatim>\<open><fcntl.h>\<close> and \<^verbatim>\<open><unistd.h>\<close> with the flags of the source, a monotonic clock and
  the end of the process. What the system decides is an explicit script: every call takes the next
  outcome of the script, which lets it go through, cuts a write short, makes it fail, or kills the
  process before the call takes effect; a script that has run out lets every call go through.
  Statements that hold for every script hold for every failure and every crash. The collection
  \<open>proc_rules\<close> has the Hoare rules of the calls.
\<close>

named_theorems proc_rules "Hoare rules of process actions"

section \<open>Processes\<close>

text \<open>
  An action on a state returns, or ends with a value that says how; an action of a process ends it
  with a status.
\<close>

type_synonym ('e, 's, 'a) action = "'s \<Rightarrow> ('e + 'a) \<times> 's"
type_synonym ('s, 'a) proc = "(int, 's, 'a) action"

definition ret :: "'a \<Rightarrow> ('e, 's, 'a) action" where
  "ret x w = (Inr x, w)"

definition exit_with :: "'e \<Rightarrow> ('e, 's, 'a) action" where
  "exit_with c w = (Inl c, w)"

definition andthen :: "('e, 's, 'a) action \<Rightarrow> ('a \<Rightarrow> ('e, 's, 'b) action) \<Rightarrow> ('e, 's, 'b) action" where
  "andthen m f w = (case m w of (Inl c, w') \<Rightarrow> (Inl c, w') | (Inr x, w') \<Rightarrow> f x w')"

definition get_state :: "('e, 's, 's) action" where
  "get_state w = (Inr w, w)"

definition modify :: "('s \<Rightarrow> 's) \<Rightarrow> ('e, 's, unit) action" where
  "modify f w = (Inr (), f w)"

text \<open>Short-circuit conjunction \<^verbatim>\<open>a && b\<close>.\<close>

definition both :: "('e, 's, bool) action \<Rightarrow> ('e, 's, bool) action \<Rightarrow> ('e, 's, bool) action" where
  "both a b = andthen a (\<lambda>x. if x then b else ret False)"

lemma andthen_get: "andthen get_state f w = f w w"
  by (simp add: andthen_def get_state_def)

section \<open>The system\<close>

datatype node = File string | Dir | Link

datatype outcome = Go | Short nat | Failed | Killed

record os =
  os_fs :: "string \<Rightarrow> node option"
  os_pid :: int
  os_clock :: "u64 list"
  os_script :: "outcome list"

definition next_outcome :: "'z os_scheme \<Rightarrow> outcome" where
  "next_outcome w = (case os_script w of [] \<Rightarrow> Go | x # _ \<Rightarrow> x)"

definition syscall :: "(outcome \<Rightarrow> 'z os_scheme \<Rightarrow> 'a \<times> 'z os_scheme) \<Rightarrow> ('z os_scheme, 'a) proc" where
  "syscall f w =
     (let o' = next_outcome w; w' = w\<lparr>os_script := tl (os_script w)\<rparr> in
      if o' = Killed then (Inl 137, w') else (case f o' w' of (x, w'') \<Rightarrow> (Inr x, w'')))"

definition sys_mkdir :: "string \<Rightarrow> ('z os_scheme, bool) proc" where
  "sys_mkdir path = syscall (\<lambda>o' w.
     if o' = Failed \<or> os_fs w path \<noteq> None then (False, w) else (True, w\<lparr>os_fs := (os_fs w)(path \<mapsto> Dir)\<rparr>))"

definition sys_lstat_is_dir :: "string \<Rightarrow> ('z os_scheme, bool) proc" where
  "sys_lstat_is_dir path = syscall (\<lambda>o' w. (o' \<noteq> Failed \<and> os_fs w path = Some Dir, w))"

text \<open>\<^verbatim>\<open>open(path, O_WRONLY | O_CREAT | O_EXCL | O_NOFOLLOW)\<close>; the descriptor is the path.\<close>

definition sys_open_excl :: "string \<Rightarrow> ('z os_scheme, string option) proc" where
  "sys_open_excl path = syscall (\<lambda>o' w.
     if o' = Failed \<or> os_fs w path \<noteq> None then (None, w) else (Some path, w\<lparr>os_fs := (os_fs w)(path \<mapsto> File [])\<rparr>))"

definition append_to :: "string \<Rightarrow> string \<Rightarrow> 'z os_scheme \<Rightarrow> 'z os_scheme" where
  "append_to path data w =
     (case os_fs w path of Some (File c) \<Rightarrow> w\<lparr>os_fs := (os_fs w)(path \<mapsto> File (c @ data))\<rparr> | _ \<Rightarrow> w)"

definition sys_write :: "string \<Rightarrow> string \<Rightarrow> ('z os_scheme, int) proc" where
  "sys_write fd data = syscall (\<lambda>o' w.
     case o' of
       Failed \<Rightarrow> (-1, w)
     | Short n \<Rightarrow> (int (min n (length data)), append_to fd (take n data) w)
     | _ \<Rightarrow> (int (length data), append_to fd data w))"

definition sys_ok :: "('z os_scheme, bool) proc" where
  "sys_ok = syscall (\<lambda>o' w. (o' \<noteq> Failed, w))"

definition sys_fsync :: "string \<Rightarrow> ('z os_scheme, bool) proc" where
  "sys_fsync fd = sys_ok"

definition sys_close :: "string \<Rightarrow> ('z os_scheme, bool) proc" where
  "sys_close fd = sys_ok"

definition sys_rename :: "string \<Rightarrow> string \<Rightarrow> ('z os_scheme, bool) proc" where
  "sys_rename old new = syscall (\<lambda>o' w.
     if o' = Failed \<or> os_fs w old = None \<or> os_fs w new = Some Dir then (False, w)
     else (True, w\<lparr>os_fs := ((os_fs w)(old := None))(new := os_fs w old)\<rparr>))"

definition sys_unlink :: "string \<Rightarrow> ('z os_scheme, bool) proc" where
  "sys_unlink path = syscall (\<lambda>o' w.
     if o' = Failed \<or> os_fs w path = None \<or> os_fs w path = Some Dir then (False, w)
     else (True, w\<lparr>os_fs := (os_fs w)(path := None)\<rparr>))"

text \<open>\<^verbatim>\<open>open(path, O_RDONLY | O_DIRECTORY | O_NOFOLLOW)\<close>\<close>

definition sys_open_dir :: "string \<Rightarrow> ('z os_scheme, string option) proc" where
  "sys_open_dir path = syscall (\<lambda>o' w. (if o' \<noteq> Failed \<and> os_fs w path = Some Dir then Some path else None, w))"

definition monotonic_ns :: "('z os_scheme, u64) proc" where
  "monotonic_ns w = (case os_clock w of [] \<Rightarrow> (Inr 0, w) | t # ts \<Rightarrow> (Inr t, w\<lparr>os_clock := ts\<rparr>))"

section \<open>Hoare rules\<close>

text \<open>From \<open>P\<close> the action returns with \<open>Q\<close>, or the process ends with \<open>E\<close>.\<close>

definition hoare :: "('s \<Rightarrow> bool) \<Rightarrow> ('e, 's, 'a) action \<Rightarrow> ('a \<Rightarrow> 's \<Rightarrow> bool) \<Rightarrow> ('s \<Rightarrow> bool) \<Rightarrow> bool" where
  "hoare P m Q E \<longleftrightarrow> (\<forall>w. P w \<longrightarrow> (case m w of (Inl c, w') \<Rightarrow> E w' | (Inr x, w') \<Rightarrow> Q x w'))"

lemma hoareI: "(\<And>w. P w \<Longrightarrow> case m w of (Inl c, w') \<Rightarrow> E w' | (Inr x, w') \<Rightarrow> Q x w') \<Longrightarrow> hoare P m Q E"
  by (simp add: hoare_def)

lemma hoareD:
  assumes "hoare P m Q E" "P w"
  shows "m w = (Inr x, w') \<Longrightarrow> Q x w'" "m w = (Inl c, w') \<Longrightarrow> E w'"
  using assms by (auto simp: hoare_def)

lemma hoare_ret [proc_rules]: "(\<And>w. P w \<Longrightarrow> Q x w) \<Longrightarrow> hoare P (ret x) Q E"
  by (simp add: hoare_def ret_def)

lemma hoare_exit [proc_rules]: "(\<And>w. P w \<Longrightarrow> E w) \<Longrightarrow> hoare P (exit_with c) Q E"
  by (simp add: hoare_def exit_with_def)

lemma hoare_andthen:
  assumes "hoare P m R E" "\<And>x. hoare (R x) (f x) Q E"
  shows "hoare P (andthen m f) Q E"
  using assms by (fastforce simp: hoare_def andthen_def split: sum.splits prod.splits)

lemma hoare_weaken:
  "hoare P' m Q' E' \<Longrightarrow> (\<And>w. P w \<Longrightarrow> P' w) \<Longrightarrow> (\<And>x w. Q' x w \<Longrightarrow> Q x w) \<Longrightarrow> (\<And>w. E' w \<Longrightarrow> E w) \<Longrightarrow> hoare P m Q E"
  unfolding hoare_def by (fastforce split: sum.splits prod.splits)

lemma hoare_get [proc_rules]: "(\<And>w. P w \<Longrightarrow> Q w w) \<Longrightarrow> hoare P get_state Q E"
  by (simp add: hoare_def get_state_def)

lemma hoare_modify [proc_rules]: "(\<And>w. P w \<Longrightarrow> Q () (f w)) \<Longrightarrow> hoare P (modify f) Q E"
  by (simp add: hoare_def modify_def)

lemma hoare_if [proc_rules]:
  "(b \<Longrightarrow> hoare P m Q E) \<Longrightarrow> (\<not> b \<Longrightarrow> hoare P n Q E) \<Longrightarrow> hoare P (if b then m else n) Q E"
  by simp

lemma hoare_both:
  assumes "hoare P a R E" "hoare (R True) b Q E" "\<And>w. R False w \<Longrightarrow> Q False w"
  shows "hoare P (both a b) Q E"
  unfolding both_def by (rule hoare_andthen [OF assms(1)]) (use assms(2,3) in \<open>auto intro: hoare_ret\<close>)

text \<open>A call of the system: killed with the state as it was, or its effect.\<close>

abbreviation scripted :: "'z os_scheme \<Rightarrow> 'z os_scheme" where
  "scripted w \<equiv> w\<lparr>os_script := tl (os_script w)\<rparr>"

lemma hoare_syscall:
  assumes "\<And>w. P w \<Longrightarrow> E (scripted w)"
    and "\<And>w o'. P w \<Longrightarrow> o' \<noteq> Killed \<Longrightarrow> Q (fst (f o' (scripted w))) (snd (f o' (scripted w)))"
  shows "hoare P (syscall f) Q E"
  using assms by (simp add: hoare_def syscall_def Let_def case_prod_beta)

lemmas syscalls = sys_mkdir_def sys_lstat_is_dir_def sys_open_excl_def sys_write_def sys_ok_def sys_fsync_def
  sys_close_def sys_rename_def sys_unlink_def sys_open_dir_def

end
