(* ===== verification/Telemetry.thy ===== *)
theory Telemetry
  imports Posix
begin

text \<open>
  The counters a fuzzing process publishes, \<^verbatim>\<open>src/harness/cmp_ecdsa_online/src/telemetry_v2.cpp\<close>:
  the process-wide state, the claim of a job number by exclusive creation of a file, the JSON document
  of the counters and its publication by write, sync and rename. The faults that a canary build can
  be asked to inject are the field \<open>tw_fault\<close>: \<open>None\<close> in every other build.
\<close>

section \<open>Vocabulary and state\<close>

definition CELLS :: "string list" where
  "CELLS = [''r1.mta_proofs[victim]|flip_bit'', ''r1.mta_proofs[victim]|zero'', ''r1.mta_proofs[victim]|truncate'',
     ''r4.si|extra_map_key'', ''dual.schedule|sequential'', ''dual.schedule|blocked'', ''dual.schedule|alternating'']"

definition VERDICTS :: "string list" where
  "VERDICTS = [''CLEAN-SIGN'', ''CLEAN-REJECT'', ''INVALID-SIGNATURE'', ''STATE-CORRUPTION'', ''CRASH'', ''TIMEOUT'',
     ''HARNESS-FAULT'']"

definition MAX_JOB_DOCUMENTS :: int where
  "MAX_JOB_DOCUMENTS = 100000"

record tstate =
  ts_configured :: bool
  ts_claimed :: bool
  ts_fault_fired :: bool
  ts_dir :: string
  ts_control_dir :: string
  ts_build_id :: string
  ts_compiler :: string
  ts_sanitizers :: string
  ts_job_index :: int
  ts_parallelism :: int
  ts_started_ns :: u64
  ts_execs :: u64
  ts_door_rejects :: u64
  ts_decoded :: u64
  ts_selected :: "(string, u64) omap"
  ts_applied :: "(string, u64) omap"
  ts_not_applied :: "(string, u64) omap"
  ts_verdicts :: "(string, u64) omap"

definition tstate_init :: tstate where
  "tstate_init = \<lparr>ts_configured = False, ts_claimed = False, ts_fault_fired = False, ts_dir = [], ts_control_dir = [],
     ts_build_id = [], ts_compiler = [], ts_sanitizers = [], ts_job_index = -1, ts_parallelism = 1, ts_started_ns = 0,
     ts_execs = 0, ts_door_rejects = 0, ts_decoded = 0, ts_selected = [], ts_applied = [], ts_not_applied = [],
     ts_verdicts = []\<rparr>"

record tworld = os +
  tw_s :: tstate
  tw_fault :: "(string \<times> int) option"

definition upd :: "(tstate \<Rightarrow> tstate) \<Rightarrow> (tworld, unit) proc" where
  "upd f = modify (\<lambda>w. w\<lparr>tw_s := f (tw_s w)\<rparr>)"

definition vocabulary_char :: "char \<Rightarrow> bool" where
  "vocabulary_char c \<longleftrightarrow> (CHR ''a'' \<le> c \<and> c \<le> CHR ''z'') \<or> (CHR ''A'' \<le> c \<and> c \<le> CHR ''Z'')
     \<or> (CHR ''0'' \<le> c \<and> c \<le> CHR ''9'') \<or> c = CHR ''-'' \<or> c = CHR ''.'' \<or> c = CHR ''|'' \<or> c = CHR ''+'' \<or> c = CHR ''_''"

definition vocabulary :: "string \<Rightarrow> bool" where
  "vocabulary v \<longleftrightarrow> \<not> (v = [] \<or> 96 < length v) \<and> list_all vocabulary_char v"

definition quoted :: "string \<Rightarrow> string" where
  "quoted v = CHR 0x22 # v @ [CHR 0x22]"

text \<open>The elements after the first bring the comma before them.\<close>

fun emit_entries :: "bool \<Rightarrow> (string \<times> u64) list \<Rightarrow> string" where
  "emit_entries first [] = []"
| "emit_entries first (kv # kvs) =
     (if first then [] else '','') @ quoted (fst kv) @ '':'' @ to_string_u64 (snd kv) @ emit_entries False kvs"

definition emit_map :: "(string, u64) omap \<Rightarrow> string" where
  "emit_map values = ''{'' @ emit_entries True values @ ''}''"

section \<open>Claiming a job\<close>

definition mkdir_if_needed :: "string \<Rightarrow> (tworld, bool) proc" where
  "mkdir_if_needed path = andthen (sys_mkdir path) (\<lambda>ok. if ok then ret True else sys_lstat_is_dir path)"

definition claim_path :: "string \<Rightarrow> int \<Rightarrow> string" where
  "claim_path control_dir index = control_dir @ ''/job-'' @ to_string_int index"

text \<open>The claim file is ours: write the owner, sync, close, and remember the index.\<close>

definition own_claim :: "int \<Rightarrow> string \<Rightarrow> (tworld, bool) proc" where
  "own_claim index fd = andthen get_state (\<lambda>w.
     let owner = to_string_int (os_pid w) @ [CHR 0x0A] in
     andthen (both (andthen (sys_write fd owner) (\<lambda>n. ret (n = int (length owner)))) (sys_fsync fd)) (\<lambda>ok.
     andthen (sys_close fd) (\<lambda>closed.
     if \<not> ok \<or> \<not> closed then ret False
     else andthen (upd (\<lambda>s. s\<lparr>ts_job_index := index, ts_claimed := True\<rparr>)) (\<lambda>_. ret True))))"

function claim_loop :: "int \<Rightarrow> (tworld, bool) proc" where
  "claim_loop index w =
     (if \<not> index < MAX_JOB_DOCUMENTS then (Inr False, w)
      else case sys_open_excl (claim_path (ts_control_dir (tw_s w)) index) w of
        (Inl c, w') \<Rightarrow> (Inl c, w')
      | (Inr None, w') \<Rightarrow> claim_loop (index + 1) w'
      | (Inr (Some fd), w') \<Rightarrow> own_claim index fd w')"
  by pat_completeness auto

termination
  by (relation "measure (\<lambda>(index, w). nat (MAX_JOB_DOCUMENTS - index))") auto

declare claim_loop.simps [simp del]

definition claim_job :: "(tworld, bool) proc" where
  "claim_job = andthen get_state (\<lambda>w.
     if \<not> ts_configured (tw_s w) then ret False
     else if ts_claimed (tw_s w) then ret True
     else andthen (both (mkdir_if_needed (ts_dir (tw_s w))) (mkdir_if_needed (ts_control_dir (tw_s w)))) (\<lambda>ok.
       if \<not> ok then ret False else claim_loop 0))"

section \<open>Publishing\<close>

definition fault_selected :: "tworld \<Rightarrow> string \<Rightarrow> bool" where
  "fault_selected w name = (case tw_fault w of None \<Rightarrow> False | Some (fault, job) \<Rightarrow> fault = name \<and> ts_job_index (tw_s w) = job)"

text \<open>The unwritten rest of the data; a write of no bytes or an error ends the loop.\<close>

function write_all :: "string \<Rightarrow> string \<Rightarrow> (tworld, bool) proc" where
  "write_all fd data w =
     (if data = [] then (Inr True, w)
      else case sys_write fd data w of
        (Inl c, w') \<Rightarrow> (Inl c, w')
      | (Inr n, w') \<Rightarrow> if n \<le> 0 then (Inr False, w') else write_all fd (drop (nat n) data) w')"
  by pat_completeness auto

termination
  by (relation "measure (\<lambda>(fd, data, w). length data)") auto

declare write_all.simps [simp del]

definition tmp_path :: "string \<Rightarrow> int \<Rightarrow> string" where
  "tmp_path dest pid = dest @ ''.tmp.'' @ to_string_int pid"

definition partial_document :: string where
  "partial_document = CHR 0x7B # quoted ''schema'' @ '':''"

definition unlink_and_fail :: "string \<Rightarrow> (tworld, bool) proc" where
  "unlink_and_fail path = andthen (sys_unlink path) (\<lambda>_. ret False)"

definition sync_directory :: "string \<Rightarrow> (tworld, bool) proc" where
  "sync_directory dir = andthen (sys_open_dir dir) (\<lambda>dfd.
     case dfd of
       None \<Rightarrow> ret False
     | Some dfd \<Rightarrow> andthen (sys_fsync dfd) (\<lambda>synced. andthen (sys_close dfd) (\<lambda>dir_closed. ret (synced \<and> dir_closed))))"

text \<open>From the open temporary file to the synced directory.\<close>

definition write_and_rename :: "tworld \<Rightarrow> string \<Rightarrow> string \<Rightarrow> string \<Rightarrow> string \<Rightarrow> (tworld, bool) proc" where
  "write_and_rename w tmp dest doc fd =
     (if fault_selected w ''death_before_flush''
      then andthen (sys_write fd partial_document) (\<lambda>_. exit_with 92)
      else
        andthen (both (write_all fd doc) (sys_fsync fd)) (\<lambda>ok.
        andthen (sys_close fd) (\<lambda>closed.
        if \<not> ok \<or> \<not> closed then unlink_and_fail tmp
        else andthen (sys_rename tmp dest) (\<lambda>renamed.
          if \<not> renamed then unlink_and_fail tmp
          else sync_directory (ts_dir (tw_s w))))))"

definition atomic_publish :: "string \<Rightarrow> string \<Rightarrow> (tworld, bool) proc" where
  "atomic_publish dest doc = andthen get_state (\<lambda>w.
     let tmp = tmp_path dest (os_pid w) in
     andthen (sys_open_excl tmp) (\<lambda>fd.
     case fd of None \<Rightarrow> ret False | Some fd \<Rightarrow> write_and_rename w tmp dest doc fd))"

definition dest_path :: "tstate \<Rightarrow> string" where
  "dest_path s = ts_dir s @ ''/telemetry-job'' @ to_string_int (ts_job_index s) @ ''.json''"

text \<open>A member \<^verbatim>\<open>"name":\<close> of the document.\<close>

definition member :: "string \<Rightarrow> string" where
  "member name = quoted name @ '':''"

definition document :: "tstate \<Rightarrow> int \<Rightarrow> u64 \<Rightarrow> string" where
  "document s reported_index now =
     ''{'' @ member ''schema'' @ quoted ''rt4.telemetry/2'' @ '',''
     @ member ''identity'' @ ''{'' @ member ''campaign'' @ quoted ''reachability_v2_r4'' @ '',''
       @ member ''fuzzer'' @ quoted ''opus_cmp_fuzzer_reachability_v2'' @ ''},''
     @ member ''build'' @ ''{'' @ member ''id'' @ quoted (ts_build_id s)
     @ '','' @ member ''compiler'' @ quoted (ts_compiler s)
     @ '','' @ member ''sanitizers'' @ quoted (ts_sanitizers s)
     @ ''},'' @ member ''process'' @ ''{'' @ member ''job_index'' @ to_string_int reported_index
     @ '','' @ member ''parallelism'' @ to_string_int (ts_parallelism s)
     @ '','' @ member ''started_monotonic_ns'' @ to_string_u64 (ts_started_ns s)
     @ '','' @ member ''updated_monotonic_ns'' @ to_string_u64 now
     @ ''},'' @ member ''counters'' @ ''{'' @ member ''execs'' @ to_string_u64 (ts_execs s)
     @ '','' @ member ''door_rejects'' @ to_string_u64 (ts_door_rejects s)
     @ '','' @ member ''decoded'' @ to_string_u64 (ts_decoded s)
     @ '','' @ member ''selected'' @ emit_map (ts_selected s)
     @ '','' @ member ''applied'' @ emit_map (ts_applied s)
     @ '','' @ member ''not_applied'' @ emit_map (ts_not_applied s)
     @ '','' @ member ''verdicts'' @ emit_map (ts_verdicts s)
     @ ''}}'' @ [CHR 0x0A]"

definition publish :: "(tworld, bool) proc" where
  "publish = andthen get_state (\<lambda>w.
     if \<not> ts_configured (tw_s w) \<or> \<not> ts_claimed (tw_s w) then ret True
     else
       let reported_index = (if fault_selected w ''duplicate'' then 0 else ts_job_index (tw_s w)) in
       andthen monotonic_ns (\<lambda>now.
       let doc = (if fault_selected w ''truncated'' then partial_document else document (tw_s w) reported_index now) in
       atomic_publish (dest_path (tw_s w)) doc))"

section \<open>The interface of the fuzzers\<close>

text \<open>A null pointer is \<open>None\<close>.\<close>

definition configure :: "string option \<Rightarrow> string option \<Rightarrow> string option \<Rightarrow> string option \<Rightarrow> string option \<Rightarrow> int
    \<Rightarrow> (tworld, bool) proc" where
  "configure dir control_dir build_id compiler sanitizers parallelism =
     (case (dir, control_dir, build_id) of
        (Some dir, Some control_dir, Some build) \<Rightarrow>
          let comp = (case compiler of Some c \<Rightarrow> c | None \<Rightarrow> ''unknown'');
              sans = (case sanitizers of Some c \<Rightarrow> c | None \<Rightarrow> ''unknown'') in
          if dir = [] \<or> control_dir = [] \<or> parallelism < 1 \<or> 64 < parallelism then ret False
          else if \<not> vocabulary build \<or> \<not> vocabulary comp \<or> \<not> vocabulary sans then ret False
          else andthen monotonic_ns (\<lambda>now.
            let zeros = (\<lambda>keys. foldl (\<lambda>m k. om_set k 0 m) [] keys) in
            andthen (upd (\<lambda>_. tstate_init\<lparr>ts_configured := True, ts_dir := dir, ts_control_dir := control_dir,
               ts_build_id := build, ts_compiler := comp, ts_sanitizers := sans, ts_parallelism := parallelism,
               ts_started_ns := now, ts_selected := zeros CELLS, ts_applied := zeros CELLS,
               ts_not_applied := zeros CELLS, ts_verdicts := zeros VERDICTS\<rparr>)) (\<lambda>_. ret True))
      | _ \<Rightarrow> ret False)"

definition fault_missing :: "(tworld, unit) proc" where
  "fault_missing = andthen get_state (\<lambda>w.
     if \<not> ts_fault_fired (tw_s w) \<and> fault_selected w ''missing''
     then andthen (upd (\<lambda>s. s\<lparr>ts_fault_fired := True\<rparr>)) (\<lambda>_. exit_with 91)
     else ret ())"

definition record_door_reject :: "(tworld, bool) proc" where
  "record_door_reject = andthen claim_job (\<lambda>claimed.
     if \<not> claimed then ret False
     else andthen fault_missing (\<lambda>_.
       andthen (upd (\<lambda>s. s\<lparr>ts_execs := ts_execs s + 1, ts_door_rejects := ts_door_rejects s + 1\<rparr>)) (\<lambda>_. publish)))"

text \<open>\<^verbatim>\<open>++m[key]\<close>; a missing entry starts at zero.\<close>

definition bump :: "string \<Rightarrow> (string, u64) omap \<Rightarrow> (string, u64) omap" where
  "bump key m = om_set key ((case om_find m key of None \<Rightarrow> 0 | Some v \<Rightarrow> v) + 1) m"

definition record_case :: "string option \<Rightarrow> bool \<Rightarrow> string option \<Rightarrow> (tworld, bool) proc" where
  "record_case cell_key was_applied verdict = andthen claim_job (\<lambda>claimed. andthen get_state (\<lambda>w.
     case cell_key of
       None \<Rightarrow> ret False
     | Some cell \<Rightarrow>
         if \<not> claimed \<or> om_find (ts_selected (tw_s w)) cell = None then ret False
         else andthen fault_missing (\<lambda>_.
           andthen (upd (\<lambda>s. s\<lparr>ts_execs := ts_execs s + 1, ts_decoded := ts_decoded s + 1,
             ts_selected := bump cell (ts_selected s)\<rparr>)) (\<lambda>_.
           if was_applied
           then (case verdict of
                   None \<Rightarrow> ret False
                 | Some v \<Rightarrow>
                     if om_find (ts_verdicts (tw_s w)) v = None then ret False
                     else andthen (upd (\<lambda>s. s\<lparr>ts_applied := bump cell (ts_applied s), ts_verdicts := bump v (ts_verdicts s)\<rparr>))
                            (\<lambda>_. publish))
           else andthen (upd (\<lambda>s. s\<lparr>ts_not_applied := bump cell (ts_not_applied s)\<rparr>)) (\<lambda>_. publish)))))"

section \<open>The document on disk is old or complete\<close>

text \<open>
  Around the publication of \<open>doc\<close> at \<open>dest\<close>: every path but \<open>dest\<close> and the temporary file is as in
  \<open>fs0\<close>, and \<open>dest\<close> is as in \<open>fs0\<close> or holds the whole document.
\<close>

definition old_or_complete :: "string \<Rightarrow> string \<Rightarrow> string \<Rightarrow> (string \<Rightarrow> node option) \<Rightarrow> tworld \<Rightarrow> bool" where
  "old_or_complete dest tmp doc fs0 w \<longleftrightarrow>
     (\<forall>p. p \<noteq> dest \<and> p \<noteq> tmp \<longrightarrow> os_fs w p = fs0 p) \<and> os_fs w dest \<in> {fs0 dest, Some (File doc)}"

lemma tmp_path_neq [simp]: "tmp_path dest pid \<noteq> dest"
  by (simp add: tmp_path_def)

lemma old_or_complete_script [simp]:
  "old_or_complete dest tmp doc fs0 (w\<lparr>os_script := x\<rparr>) = old_or_complete dest tmp doc fs0 w"
  by (simp add: old_or_complete_def)

lemma sys_write_appends:
  assumes "os_fs w fd = Some (File c)" "sys_write fd data w = (Inr n, w')" "0 < n"
  shows "os_fs w' = (os_fs w)(fd \<mapsto> File (c @ take (nat n) data)) \<and> nat n \<le> length data"
  using assms
  by (auto simp: sys_write_def syscall_def Let_def append_to_def min_def split: if_splits outcome.splits)

lemma sys_write_frame:
  assumes "sys_write fd data w = (r, w')" "p \<noteq> fd"
  shows "os_fs w' p = os_fs w p" and "tw_s w' = tw_s w"
  using assms
  by (auto simp: sys_write_def syscall_def Let_def append_to_def split: if_splits outcome.splits option.splits node.splits)

lemma old_or_complete_frame:
  "old_or_complete dest tmp doc fs0 w \<Longrightarrow> (\<And>p. p \<noteq> tmp \<Longrightarrow> os_fs w' p = os_fs w p) \<Longrightarrow> tmp \<noteq> dest
     \<Longrightarrow> old_or_complete dest tmp doc fs0 w'"
  by (simp add: old_or_complete_def)

lemma old_or_complete_write:
  "sys_write fd data w = (r, w') \<Longrightarrow> old_or_complete dest fd doc fs0 w \<Longrightarrow> fd \<noteq> dest \<Longrightarrow> old_or_complete dest fd doc fs0 w'"
  by (erule old_or_complete_frame) (simp_all add: sys_write_frame(1))

text \<open>The loop writes everything, or reports that it did not; it touches its own file only.\<close>

lemma write_all_writes:
  assumes "write_all fd data w = (Inr True, w')" "os_fs w fd = Some (File c)"
  shows "os_fs w' = (os_fs w)(fd \<mapsto> File (c @ data))"
  using assms
proof (induction fd data w arbitrary: c rule: write_all.induct)
  case (1 fd data w)
  show ?case
  proof (cases "data = []")
    case True
    with "1.prems" show ?thesis by (auto simp: write_all.simps [of fd "[]" w] fun_upd_idem)
  next
    case False
    obtain n w1 where n: "sys_write fd data w = (Inr n, w1)" "0 < n" "write_all fd (drop (nat n) data) w1 = (Inr True, w')"
      using False "1.prems"(1) by (auto simp: write_all.simps [of fd data w] split: prod.splits sum.splits if_splits)
    have w1: "os_fs w1 = (os_fs w)(fd \<mapsto> File (c @ take (nat n) data))"
      using sys_write_appends [OF "1.prems"(2) n(1,2)] by simp
    have "os_fs w' = (os_fs w1)(fd \<mapsto> File ((c @ take (nat n) data) @ drop (nat n) data))"
      by (rule "1.IH" [OF False n(1) [symmetric] refl _ n(3)]) (use n(2) w1 in auto)
    with w1 show ?thesis by simp
  qed
qed

lemma write_all_frame:
  assumes "write_all fd data w = (r, w')" "p \<noteq> fd"
  shows "os_fs w' p = os_fs w p"
  using assms
proof (induction fd data w rule: write_all.induct)
  case (1 fd data w)
  show ?case
  proof (cases "data = []")
    case True
    with "1.prems" show ?thesis by (auto simp: write_all.simps [of fd "[]" w] fun_upd_idem)
  next
    case False
    obtain q w1 where q: "sys_write fd data w = (q, w1)" by fastforce
    have w1: "os_fs w1 p = os_fs w p" by (rule sys_write_frame [OF q "1.prems"(2)])
    show ?thesis
    proof (cases "\<exists>n. q = Inr n \<and> 0 < n")
      case True
      then obtain n where n: "q = Inr n" "0 < n" by blast
      have "write_all fd (drop (nat n) data) w1 = (r, w')"
        using "1.prems"(1) False q n by (simp add: write_all.simps [of fd data w])
      with "1.IH" [OF False q [unfolded n(1), symmetric] refl _ this "1.prems"(2)] n(2) w1 show ?thesis by simp
    next
      case no: False
      then show ?thesis using "1.prems"(1) False q w1
        by (cases q) (auto simp: write_all.simps [of fd data w])
    qed
  qed
qed

text \<open>Writing always ends: with the whole document written, a short count, or the process killed.\<close>

lemma hoare_write_all:
  "hoare (\<lambda>w. old_or_complete dest fd doc fs0 w \<and> os_fs w fd = Some (File []) \<and> fd \<noteq> dest) (write_all fd doc)
     (\<lambda>ok w. old_or_complete dest fd doc fs0 w \<and> (ok \<longrightarrow> os_fs w fd = Some (File doc)))
     (old_or_complete dest fd doc fs0)"
proof (rule hoareI)
  fix w assume P: "old_or_complete dest fd doc fs0 w \<and> os_fs w fd = Some (File []) \<and> fd \<noteq> dest"
  obtain r w' where r: "write_all fd doc w = (r, w')" by fastforce
  have "old_or_complete dest fd doc fs0 w'"
    by (rule old_or_complete_frame) (use P write_all_frame [OF r] in auto)
  moreover have "os_fs w' fd = Some (File doc)" if "r = Inr True"
    using write_all_writes [OF r [unfolded that], of "[]"] P by simp
  ultimately show "case write_all fd doc w of (Inl c, w') \<Rightarrow> old_or_complete dest fd doc fs0 w'
    | (Inr ok, w') \<Rightarrow> old_or_complete dest fd doc fs0 w' \<and> (ok \<longrightarrow> os_fs w' fd = Some (File doc))"
    using r by (auto split: sum.split)
qed

lemma hoare_sys_ok [proc_rules]:
  assumes "\<And>w x. P (w\<lparr>os_script := x\<rparr>) = P w" "\<And>ok w. P w \<Longrightarrow> Q ok w" "\<And>w. P w \<Longrightarrow> E w"
  shows "hoare P (sys_fsync fd) Q E" "hoare P (sys_close fd) Q E"
  unfolding sys_fsync_def sys_close_def sys_ok_def using assms by (auto intro!: hoare_syscall)

lemma hoare_publish_open:
  "hoare (\<lambda>w. os_fs w = fs0) (sys_open_excl tmp)
     (\<lambda>fd w. old_or_complete dest tmp doc fs0 w \<and> (fd = None \<or> fd = Some tmp \<and> os_fs w tmp = Some (File [])))
     (old_or_complete dest tmp doc fs0)" if "tmp \<noteq> dest"
  unfolding sys_open_excl_def using that by (intro hoare_syscall) (auto simp: old_or_complete_def)

lemma hoare_publish_rename:
  "hoare (\<lambda>w. old_or_complete dest tmp doc fs0 w \<and> os_fs w tmp = Some (File doc)) (sys_rename tmp dest)
     (\<lambda>ok w. old_or_complete dest tmp doc fs0 w \<and> (ok \<longrightarrow> os_fs w dest = Some (File doc) \<and> os_fs w tmp = None))
     (old_or_complete dest tmp doc fs0)" if "tmp \<noteq> dest"
  unfolding sys_rename_def using that by (intro hoare_syscall) (auto simp: old_or_complete_def)

lemma hoare_publish_unlink:
  "hoare (old_or_complete dest tmp doc fs0) (unlink_and_fail tmp)
     (\<lambda>ok w. old_or_complete dest tmp doc fs0 w \<and> \<not> ok) (old_or_complete dest tmp doc fs0)" if "tmp \<noteq> dest"
  unfolding unlink_and_fail_def sys_unlink_def
  by (rule hoare_andthen [where R = "\<lambda>_. old_or_complete dest tmp doc fs0"], rule hoare_syscall)
    (use that in \<open>auto simp: old_or_complete_def intro: hoare_ret\<close>)

lemma hoare_sync_directory:
  assumes "\<And>w x. P (w\<lparr>os_script := x\<rparr>) = P w"
  shows "hoare P (sync_directory dir) (\<lambda>_. P) P"
  unfolding sync_directory_def
proof (rule hoare_andthen [where R = "\<lambda>_. P"])
  show "hoare P (sys_open_dir dir) (\<lambda>_. P) P"
    unfolding sys_open_dir_def using assms by (auto intro!: hoare_syscall)
  show "hoare P (case x of None \<Rightarrow> ret False | Some dfd \<Rightarrow> andthen (sys_fsync dfd)
      (\<lambda>synced. andthen (sys_close dfd) (\<lambda>dir_closed. ret (synced \<and> dir_closed)))) (\<lambda>_. P) P" for x
    by (cases x) (auto intro!: hoare_ret hoare_andthen [where R = "\<lambda>_. P"] hoare_sys_ok simp: assms)
qed

text \<open>Everything after the temporary file is open.\<close>

lemma hoare_write_and_rename:
  assumes "tmp \<noteq> dest"
  shows "hoare (\<lambda>w. old_or_complete dest tmp doc fs0 w \<and> os_fs w tmp = Some (File []))
     (write_and_rename v tmp dest doc tmp)
     (\<lambda>ok w. old_or_complete dest tmp doc fs0 w \<and> (ok \<longrightarrow> os_fs w dest = Some (File doc) \<and> os_fs w tmp = None))
     (old_or_complete dest tmp doc fs0)"
proof -
  let ?I = "old_or_complete dest tmp doc fs0"
  let ?W = "\<lambda>ok w. ?I w \<and> (ok \<longrightarrow> os_fs w tmp = Some (File doc))"
  let ?Q = "\<lambda>ok w. ?I w \<and> (ok \<longrightarrow> os_fs w dest = Some (File doc) \<and> os_fs w tmp = None)"
  have pd: "hoare (\<lambda>w. ?I w \<and> os_fs w tmp = Some (File [])) (sys_write tmp partial_document) (\<lambda>_. ?I) ?I"
    by (rule hoareI) (use old_or_complete_write [OF _ _ assms] in \<open>auto split: prod.split sum.split\<close>)
  have die: "hoare (\<lambda>w. ?I w \<and> os_fs w tmp = Some (File [])) (andthen (sys_write tmp partial_document) (\<lambda>_. exit_with 92)) ?Q ?I"
    by (rule hoare_andthen [OF pd]) (rule hoare_exit)
  have wr: "hoare (\<lambda>w. ?I w \<and> os_fs w tmp = Some (File [])) (write_all tmp doc) ?W ?I"
    by (rule hoare_weaken [OF hoare_write_all]) (use assms in auto)
  have fs: "hoare (?W True) (sys_fsync tmp) ?W ?I" by (rule hoare_sys_ok) auto
  have cl: "hoare (?W ok) (sys_close tmp) (\<lambda>closed w. ?W ok w) ?I" for ok by (rule hoare_sys_ok) auto
  have un: "hoare ?I (unlink_and_fail tmp) ?Q ?I" by (rule hoare_weaken [OF hoare_publish_unlink [OF assms]]) auto
  have sy: "hoare (?Q True) (sync_directory dir) ?Q ?I" for dir
    by (rule hoare_weaken [OF hoare_sync_directory [where P = "?Q True"]]) auto
  have rn: "hoare (?W True) (sys_rename tmp dest) ?Q ?I"
    by (rule hoare_weaken [OF hoare_publish_rename [OF assms]]) auto
  have tl: "hoare (?W True) (andthen (sys_rename tmp dest) (\<lambda>renamed.
      if \<not> renamed then unlink_and_fail tmp else sync_directory dir)) ?Q ?I" for dir
    by (rule hoare_andthen [OF rn]) (use un sy in \<open>simp split: if_split\<close>)
  have un': "hoare (?W ok) (unlink_and_fail tmp) ?Q ?I" for ok by (rule hoare_weaken [OF un]) auto
  have "hoare (?W ok) (if \<not> ok \<or> \<not> closed then unlink_and_fail tmp
      else andthen (sys_rename tmp dest) (\<lambda>renamed. if \<not> renamed then unlink_and_fail tmp else sync_directory dir)) ?Q ?I"
    for ok closed dir using tl un' by (cases "ok \<and> closed") auto
  from hoare_andthen [OF hoare_both [OF wr fs] hoare_andthen [OF cl this]] die show ?thesis
    unfolding write_and_rename_def by (intro hoare_if) auto
qed

text \<open>C4: publishing is atomic under every failure and every crash: whatever calls of the system fail or
  cut writes short and wherever the process is killed, the document at its destination is afterwards
  what it was before or the whole new document, no path but the destination and the process's own
  temporary file has changed, and a reported success means that the new document is in place and
  the temporary file gone.\<close>

theorem publish_is_atomic:
  assumes "atomic_publish dest doc w = (r, w')"
  shows "os_fs w' dest \<in> {os_fs w dest, Some (File doc)}
    \<and> (\<forall>p. p \<noteq> dest \<and> p \<noteq> tmp_path dest (os_pid w) \<longrightarrow> os_fs w' p = os_fs w p)
    \<and> (r = Inr True \<longrightarrow> os_fs w' dest = Some (File doc) \<and> os_fs w' (tmp_path dest (os_pid w)) = None)"
proof -
  let ?tmp = "tmp_path dest (os_pid w)" and ?fs = "os_fs w"
  let ?I = "old_or_complete dest ?tmp doc ?fs"
  let ?Q = "\<lambda>ok w'. ?I w' \<and> (ok \<longrightarrow> os_fs w' dest = Some (File doc) \<and> os_fs w' ?tmp = None)"
  have "hoare (\<lambda>x. ?I x \<and> (fd = None \<or> fd = Some ?tmp \<and> os_fs x ?tmp = Some (File [])))
      (case fd of None \<Rightarrow> ret False | Some fd \<Rightarrow> write_and_rename w ?tmp dest doc fd) ?Q ?I" for fd
  proof (cases "fd = Some ?tmp")
    case True
    with hoare_write_and_rename [OF tmp_path_neq] show ?thesis by simp
  next
    case False
    then show ?thesis by (cases fd) (auto simp: hoare_def ret_def)
  qed
  note m = hoare_andthen [OF hoare_publish_open [OF tmp_path_neq] this]
  have "atomic_publish dest doc w = andthen (sys_open_excl ?tmp)
      (\<lambda>fd. case fd of None \<Rightarrow> ret False | Some fd \<Rightarrow> write_and_rename w ?tmp dest doc fd) w"
    by (simp add: atomic_publish_def andthen_get Let_def)
  with hoareD [OF m refl] assms show ?thesis by (cases r) (auto simp: old_or_complete_def)
qed

lemma publish_is_atomic_run:
  "os_fs (snd (atomic_publish ''d/x'' ''new'' \<lparr>os_fs = [''d'' \<mapsto> Dir, ''d/x'' \<mapsto> File ''old''], os_pid = 7, os_clock = [],
     os_script = [Go, Short 2, Go, Go, Go, Killed], tw_s = tstate_init, tw_fault = None\<rparr>)) ''d/x'' = Some (File ''old'')"
  by code_simp

theorem publish_is_atomic_witness:
  "os_fs (snd (atomic_publish ''d/x'' ''new'' \<lparr>os_fs = [''d'' \<mapsto> Dir, ''d/x'' \<mapsto> File ''old''], os_pid = 7, os_clock = [],
     os_script = [Go, Short 2, Go, Go, Go, Killed], tw_s = tstate_init, tw_fault = None\<rparr>)) ''d'' = Some Dir"
  using publish_is_atomic [OF prod.collapse [symmetric], of "''d/x''" "''new''"
    "\<lparr>os_fs = [''d'' \<mapsto> Dir, ''d/x'' \<mapsto> File ''old''], os_pid = 7, os_clock = [],
     os_script = [Go, Short 2, Go, Go, Go, Killed], tw_s = tstate_init, tw_fault = None\<rparr>"]
  by (simp add: tmp_path_def)

section \<open>What leaves the counters alone\<close>

text \<open>An action leaves a view of the telemetry state as it was.\<close>

definition keeps :: "(tstate \<Rightarrow> 'v) \<Rightarrow> (tworld, 'a) proc \<Rightarrow> bool" where
  "keeps g m \<longleftrightarrow> (\<forall>w. g (tw_s (snd (m w))) = g (tw_s w))"

named_theorems tel_rules "actions that leave a view of the telemetry state alone"

lemma keeps_run: "keeps g m \<Longrightarrow> m w = (r, w') \<Longrightarrow> g (tw_s w') = g (tw_s w)"
  unfolding keeps_def by (metis snd_conv)

lemma keeps_ret [tel_rules]: "keeps g (ret x)" "keeps g (exit_with c)" "keeps g get_state"
  by (simp_all add: keeps_def ret_def exit_with_def get_state_def)

lemma keeps_andthen [tel_rules]: "keeps g m \<Longrightarrow> (\<And>x. keeps g (f x)) \<Longrightarrow> keeps g (andthen m f)"
  by (simp add: keeps_def andthen_def split: prod.split sum.split) (metis snd_conv)

lemma keeps_if [tel_rules]: "(b \<Longrightarrow> keeps g m) \<Longrightarrow> (\<not> b \<Longrightarrow> keeps g n) \<Longrightarrow> keeps g (if b then m else n)"
  by simp

lemma keeps_option [tel_rules]:
  "keeps g m \<Longrightarrow> (\<And>y. keeps g (f y)) \<Longrightarrow> keeps g (case x of None \<Rightarrow> m | Some y \<Rightarrow> f y)"
  by (simp split: option.split)

lemma keeps_both [tel_rules]: "keeps g a \<Longrightarrow> keeps g b \<Longrightarrow> keeps g (both a b)"
  unfolding both_def by (intro tel_rules)

lemma keeps_upd [tel_rules]: "(\<And>s. g (f s) = g s) \<Longrightarrow> keeps g (upd f)"
  by (simp add: keeps_def upd_def modify_def)

lemma keeps_syscall: "(\<And>o' w. tw_s (snd (f o' w)) = tw_s w) \<Longrightarrow> keeps g (syscall f)"
  by (simp add: keeps_def syscall_def Let_def case_prod_beta)

lemma keeps_syscalls [tel_rules]:
  "keeps g (sys_mkdir p)" "keeps g (sys_lstat_is_dir p)" "keeps g (sys_open_excl p)" "keeps g (sys_write p d)"
  "keeps g (sys_fsync p)" "keeps g (sys_close p)" "keeps g (sys_rename p q)" "keeps g (sys_unlink p)"
  "keeps g (sys_open_dir p)" "keeps g monotonic_ns"
  by (auto simp: syscalls append_to_def intro!: keeps_syscall split: outcome.split option.split node.split)
    (simp add: keeps_def monotonic_ns_def split: list.split)

lemma keeps_write_all [tel_rules]: "keeps g (write_all fd data)"
  unfolding keeps_def
proof
  fix w show "g (tw_s (snd (write_all fd data w))) = g (tw_s w)"
  proof (induction fd data w rule: write_all.induct)
    case (1 fd data w)
    note k = keeps_run [OF keeps_syscalls(4) [of g fd data], of w]
    show ?case
      by (subst write_all.simps) (use 1 k in \<open>auto split: prod.split sum.split\<close>)
  qed
qed

lemma keeps_publish [tel_rules]: "keeps g publish"
  unfolding publish_def atomic_publish_def write_and_rename_def unlink_and_fail_def sync_directory_def Let_def
  by (intro tel_rules)

text \<open>The state up to the claim, which is all that \<open>claim_job\<close> changes.\<close>

definition unclaimed :: "tstate \<Rightarrow> tstate" where
  "unclaimed s = s\<lparr>ts_job_index := -1, ts_claimed := False, ts_fault_fired := False\<rparr>"

lemma keeps_own_claim [tel_rules]: "keeps unclaimed (own_claim i fd)"
  unfolding own_claim_def Let_def by (intro tel_rules) (simp add: unclaimed_def)

lemma keeps_claim_loop [tel_rules]: "keeps unclaimed (claim_loop i)"
  unfolding keeps_def
proof
  fix w show "unclaimed (tw_s (snd (claim_loop i w))) = unclaimed (tw_s w)"
  proof (induction i w rule: claim_loop.induct)
    case (1 i w)
    note k = keeps_run [OF keeps_syscalls(3) [of unclaimed "claim_path (ts_control_dir (tw_s w)) i"], of w]
    have o': "unclaimed (tw_s (snd (own_claim i fd v))) = unclaimed (tw_s v)" for fd v
      using keeps_own_claim unfolding keeps_def by blast
    show ?case
      by (subst claim_loop.simps) (use 1 k o' in \<open>auto split: prod.split sum.split option.split\<close>)
  qed
qed

lemma keeps_claim_job [tel_rules]: "keeps unclaimed claim_job"
  unfolding claim_job_def mkdir_if_needed_def by (intro tel_rules)

section \<open>The equations of the counters\<close>

definition counter :: "(string, u64) omap \<Rightarrow> string \<Rightarrow> nat" where
  "counter m k = (case om_find m k of None \<Rightarrow> 0 | Some v \<Rightarrow> unat v)"

definition table :: "string list \<Rightarrow> (string, u64) omap \<Rightarrow> bool" where
  "table ks m \<longleftrightarrow> om_ok m \<and> (\<forall>k. om_find m k \<noteq> None \<longleftrightarrow> k \<in> set ks)"

text \<open>
  The equations the aggregation checks, over unbounded numbers, after \<open>n\<close> recorded calls: every
  execution was rejected at the door or decoded, every decoded one selected one cell, every selection
  was applied or not, and every applied one has a verdict.
\<close>

definition balanced :: "nat \<Rightarrow> tstate \<Rightarrow> bool" where
  "balanced n s \<longleftrightarrow> table CELLS (ts_selected s) \<and> table CELLS (ts_applied s) \<and> table CELLS (ts_not_applied s)
     \<and> table VERDICTS (ts_verdicts s)
     \<and> unat (ts_execs s) = n \<and> unat (ts_execs s) = unat (ts_door_rejects s) + unat (ts_decoded s)
     \<and> unat (ts_decoded s) = sum_list (map (counter (ts_selected s)) CELLS)
     \<and> (\<forall>c\<in>set CELLS. counter (ts_selected s) c = counter (ts_applied s) c + counter (ts_not_applied s) c)
     \<and> sum_list (map (counter (ts_applied s)) CELLS) = sum_list (map (counter (ts_verdicts s)) VERDICTS)"

lemma unat_Suc: "unat (x :: u64) < 2 ^ 64 - 1 \<Longrightarrow> unat (x + 1) = Suc (unat x)"
  by (simp add: unat_word_ariths)

lemma table_bump: "table ks m \<Longrightarrow> k \<in> set ks \<Longrightarrow> table ks (bump k m)"
  by (auto simp: table_def bump_def store_simps)

lemma counter_bump:
  assumes "om_ok m" "counter m k < 2 ^ 64 - 1"
  shows "counter (bump k m) k' = counter m k' + (if k' = k then 1 else 0)"
  using assms by (auto simp: counter_def bump_def store_simps unat_Suc split: option.splits)

lemma sum_counter_bump:
  assumes "om_ok m" "counter m k < 2 ^ 64 - 1" "distinct ks" "k \<in> set ks"
  shows "sum_list (map (counter (bump k m)) ks) = Suc (sum_list (map (counter m) ks))"
proof -
  have "sum_list (map (counter (bump k m)) ks) = sum_list (map (\<lambda>k'. counter m k' + (if k' = k then 1 else 0)) ks)"
    by (intro arg_cong [where f = sum_list] map_cong refl counter_bump assms(1,2))
  also have "\<dots> = sum_list (map (counter m) ks) + sum_list (map (\<lambda>k'. if k' = k then 1 else 0) ks)"
    by (simp add: sum_list_addf)
  also have "sum_list (map (\<lambda>k'. if k' = k then 1 else 0 :: nat) ks) = 1"
    using assms(3,4) by (induction ks) (auto simp: sum_list_map_eq_sum_count)
  finally show ?thesis by simp
qed

text \<open>What a recorded call does to the counters, when it returns true.\<close>

definition same_counters :: "tstate \<Rightarrow> tstate \<Rightarrow> bool" where
  "same_counters s t \<longleftrightarrow> unclaimed s = unclaimed t"

lemma same_counters_balanced: "same_counters s t \<Longrightarrow> balanced n s = balanced n t"
proof -
  assume "same_counters s t"
  have f: "ts_execs (unclaimed x) = ts_execs x" "ts_door_rejects (unclaimed x) = ts_door_rejects x"
    "ts_decoded (unclaimed x) = ts_decoded x" "ts_selected (unclaimed x) = ts_selected x"
    "ts_applied (unclaimed x) = ts_applied x" "ts_not_applied (unclaimed x) = ts_not_applied x"
    "ts_verdicts (unclaimed x) = ts_verdicts x" for x by (simp_all add: unclaimed_def)
  have "balanced n (unclaimed x) = balanced n x" for x by (simp add: balanced_def f)
  with \<open>same_counters s t\<close> show ?thesis by (metis same_counters_def)
qed

lemma andthen_upd: "andthen (upd f) g w = g () (w\<lparr>tw_s := f (tw_s w)\<rparr>)"
  by (simp add: andthen_def upd_def modify_def)

lemma fault_missing_returns: "fault_missing w = (Inr u, w') \<Longrightarrow> w' = w"
  by (auto simp: fault_missing_def andthen_get andthen_upd ret_def exit_with_def split: if_splits)

lemma publish_tel: "publish w = (r, w') \<Longrightarrow> tw_s w' = tw_s w"
  by (rule keeps_run [OF keeps_publish, where g = "\<lambda>s. s"])

lemma claimed_tel: "claim_job w = (r, w') \<Longrightarrow> same_counters (tw_s w') (tw_s w)"
  unfolding same_counters_def by (rule keeps_run [OF keeps_claim_job])

lemma record_door_reject_True:
  assumes "record_door_reject w = (Inr True, w')"
  obtains s where "same_counters s (tw_s w)"
    "tw_s w' = s\<lparr>ts_execs := ts_execs s + 1, ts_door_rejects := ts_door_rejects s + 1\<rparr>"
proof -
  obtain w1 where c: "claim_job w = (Inr True, w1)"
    and r: "andthen fault_missing (\<lambda>_. andthen (upd (\<lambda>s. s\<lparr>ts_execs := ts_execs s + 1, ts_door_rejects := ts_door_rejects s + 1\<rparr>))
      (\<lambda>_. publish)) w1 = (Inr True, w')"
    using assms unfolding record_door_reject_def
    by (auto simp: andthen_def [of claim_job] ret_def split: prod.splits sum.splits if_splits)
  obtain w2 where "fault_missing w1 = (Inr (), w2)"
    and p: "publish (w2\<lparr>tw_s := (tw_s w2)\<lparr>ts_execs := ts_execs (tw_s w2) + 1, ts_door_rejects := ts_door_rejects (tw_s w2) + 1\<rparr>\<rparr>) = (Inr True, w')"
    using r by (auto simp: andthen_def [of fault_missing] andthen_upd split: prod.splits sum.splits)
  then have "w2 = w1" by (auto dest: fault_missing_returns)
  with publish_tel [OF p] claimed_tel [OF c] that [of "tw_s w1"] show ?thesis by simp
qed

lemma record_case_True:
  assumes "record_case cell applied verdict w = (Inr True, w')"
  obtains s c where "same_counters s (tw_s w)" "cell = Some c" "om_find (ts_selected s) c \<noteq> None" "\<not> applied"
      "tw_s w' = s\<lparr>ts_execs := ts_execs s + 1, ts_decoded := ts_decoded s + 1, ts_selected := bump c (ts_selected s),
         ts_not_applied := bump c (ts_not_applied s)\<rparr>"
  | s c v where "same_counters s (tw_s w)" "cell = Some c" "om_find (ts_selected s) c \<noteq> None" "applied"
      "verdict = Some v" "om_find (ts_verdicts s) v \<noteq> None"
      "tw_s w' = s\<lparr>ts_execs := ts_execs s + 1, ts_decoded := ts_decoded s + 1, ts_selected := bump c (ts_selected s),
         ts_applied := bump c (ts_applied s), ts_verdicts := bump v (ts_verdicts s)\<rparr>"
proof -
  obtain b w1 where cl: "claim_job w = (Inr b, w1)"
    using assms by (auto simp: record_case_def andthen_def [of claim_job] split: prod.splits sum.splits)
  note sc = claimed_tel [OF cl]
  let ?s = "tw_s w1"
  obtain c where c: "cell = Some c" "om_find (ts_selected ?s) c \<noteq> None"
    using assms cl by (auto simp: record_case_def andthen_def [of claim_job] andthen_get ret_def split: option.splits if_splits)
  have fm: "fault_missing w1 = (Inr (), w1)"
    using assms cl c fault_missing_returns [of w1]
    by (auto simp: record_case_def andthen_def [of claim_job] andthen_get andthen_def [of fault_missing] ret_def
        split: prod.splits sum.splits if_splits)
  let ?up = "\<lambda>s. s\<lparr>ts_execs := ts_execs s + 1, ts_decoded := ts_decoded s + 1, ts_selected := bump c (ts_selected s)\<rparr>"
  have r: "(if applied then (case verdict of None \<Rightarrow> ret False | Some v \<Rightarrow>
        if om_find (ts_verdicts ?s) v = None then ret False
        else andthen (upd (\<lambda>s. s\<lparr>ts_applied := bump c (ts_applied s), ts_verdicts := bump v (ts_verdicts s)\<rparr>)) (\<lambda>_. publish))
      else andthen (upd (\<lambda>s. s\<lparr>ts_not_applied := bump c (ts_not_applied s)\<rparr>)) (\<lambda>_. publish)) (w1\<lparr>tw_s := ?up ?s\<rparr>) = (Inr True, w')"
    using assms cl c fm
    by (auto simp: record_case_def andthen_def [of claim_job] andthen_get andthen_def [of fault_missing] ret_def
        andthen_upd split: if_splits)
  show ?thesis
  proof (cases applied)
    case False
    then have "publish (w1\<lparr>tw_s := (?up ?s)\<lparr>ts_not_applied := bump c (ts_not_applied ?s)\<rparr>\<rparr>) = (Inr True, w')"
      using r by (simp add: andthen_upd)
    from publish_tel [OF this] that(1) [OF sc c False] show ?thesis by simp
  next
    case True
    then obtain v where v: "verdict = Some v" "om_find (ts_verdicts ?s) v \<noteq> None"
      using r by (auto simp: ret_def split: option.splits if_splits)
    then have "publish (w1\<lparr>tw_s := (?up ?s)\<lparr>ts_applied := bump c (ts_applied ?s), ts_verdicts := bump v (ts_verdicts ?s)\<rparr>\<rparr>) = (Inr True, w')"
      using r True by (auto simp: andthen_upd split: if_splits)
    from publish_tel [OF this] that(2) [OF sc c True v] show ?thesis by simp
  qed
qed

lemma CELLS_distinct: "distinct CELLS" "distinct VERDICTS"
  by code_simp+

lemma counter_le: "k \<in> set ks \<Longrightarrow> counter m k \<le> sum_list (map (counter m) ks)"
  by (induction ks) auto

lemma balanced_door:
  assumes "balanced n s" "n < 2 ^ 64 - 1"
  shows "balanced (Suc n) (s\<lparr>ts_execs := ts_execs s + 1, ts_door_rejects := ts_door_rejects s + 1\<rparr>)"
  using assms by (simp add: balanced_def unat_Suc)

lemma balanced_selected:
  assumes "balanced n s" "n < 2 ^ 64 - 1" "om_find (ts_selected s) c \<noteq> None"
  shows "c \<in> set CELLS" "counter (ts_selected s) c < 2 ^ 64 - 1" "counter (ts_applied s) c < 2 ^ 64 - 1"
    "counter (ts_not_applied s) c < 2 ^ 64 - 1" "om_ok (ts_selected s)" "om_ok (ts_applied s)" "om_ok (ts_not_applied s)"
    "om_ok (ts_verdicts s)"
proof -
  show c: "c \<in> set CELLS" using assms(1,3) by (simp add: balanced_def table_def)
  show s: "counter (ts_selected s) c < 2 ^ 64 - 1"
    using counter_le [OF c, of "ts_selected s"] assms(1,2) by (simp add: balanced_def)
  have "counter (ts_selected s) c = counter (ts_applied s) c + counter (ts_not_applied s) c"
    using assms(1) c by (simp add: balanced_def)
  with s show "counter (ts_applied s) c < 2 ^ 64 - 1" "counter (ts_not_applied s) c < 2 ^ 64 - 1" by simp_all
  show "om_ok (ts_selected s)" "om_ok (ts_applied s)" "om_ok (ts_not_applied s)" "om_ok (ts_verdicts s)"
    using assms(1) by (simp_all add: balanced_def table_def)
qed

lemma balanced_not_applied:
  assumes "balanced n s" "n < 2 ^ 64 - 1" "om_find (ts_selected s) c \<noteq> None"
  shows "balanced (Suc n) (s\<lparr>ts_execs := ts_execs s + 1, ts_decoded := ts_decoded s + 1,
    ts_selected := bump c (ts_selected s), ts_not_applied := bump c (ts_not_applied s)\<rparr>)"
proof -
  note b = balanced_selected [OF assms]
  show ?thesis
    using assms(1,2) b
    by (simp add: balanced_def unat_Suc table_bump counter_bump sum_counter_bump CELLS_distinct del: One_nat_def)
qed

lemma balanced_applied:
  assumes "balanced n s" "n < 2 ^ 64 - 1" "om_find (ts_selected s) c \<noteq> None" "om_find (ts_verdicts s) v \<noteq> None"
  shows "balanced (Suc n) (s\<lparr>ts_execs := ts_execs s + 1, ts_decoded := ts_decoded s + 1,
    ts_selected := bump c (ts_selected s), ts_applied := bump c (ts_applied s), ts_verdicts := bump v (ts_verdicts s)\<rparr>)"
proof -
  note b = balanced_selected [OF assms(1-3)]
  have v: "v \<in> set VERDICTS" using assms(1,4) by (simp add: balanced_def table_def)
  have "sum_list (map (counter (ts_applied s)) CELLS) \<le> sum_list (map (counter (ts_selected s)) CELLS)"
    by (rule sum_list_mono) (use assms(1) in \<open>simp add: balanced_def\<close>)
  then have "counter (ts_verdicts s) v < 2 ^ 64 - 1"
    using counter_le [OF v, of "ts_verdicts s"] assms(1,2) by (simp add: balanced_def)
  with assms(1,2) b v show ?thesis
    by (simp add: balanced_def unat_Suc table_bump counter_bump sum_counter_bump CELLS_distinct del: One_nat_def)
qed

text \<open>The calls a fuzzing process makes; it goes on to the next input only after a call returned true.\<close>

datatype tcall = Door | Case "string option" bool "string option"

primrec run_call :: "tcall \<Rightarrow> (tworld, bool) proc" where
  "run_call Door = record_door_reject"
| "run_call (Case cell applied verdict) = record_case cell applied verdict"

fun run_calls :: "tcall list \<Rightarrow> (tworld, bool) proc" where
  "run_calls [] = ret True"
| "run_calls (c # cs) = andthen (run_call c) (\<lambda>ok. if ok then run_calls cs else ret False)"

lemma run_call_balanced:
  assumes "run_call c w = (Inr True, w')" "balanced n (tw_s w)" "n < 2 ^ 64 - 1"
  shows "balanced (Suc n) (tw_s w')"
proof (cases c)
  case Door
  with assms(1) have "record_door_reject w = (Inr True, w')" by simp
  then obtain s where s: "same_counters s (tw_s w)"
    "tw_s w' = s\<lparr>ts_execs := ts_execs s + 1, ts_door_rejects := ts_door_rejects s + 1\<rparr>" by (rule record_door_reject_True)
  then show ?thesis using balanced_door [of n s] assms(2,3) same_counters_balanced [OF s(1)] by simp
next
  case (Case cell applied verdict)
  with assms(1) have "record_case cell applied verdict w = (Inr True, w')" by simp
  then show ?thesis
  proof (cases rule: record_case_True)
    case (1 s x)
    then show ?thesis using balanced_not_applied [of n s x] assms(2,3) same_counters_balanced [OF 1(1)] by simp
  next
    case (2 s x v)
    then show ?thesis using balanced_applied [of n s x v] assms(2,3) same_counters_balanced [OF 2(1)] by simp
  qed
qed

lemma run_calls_balanced:
  "run_calls cs w = (Inr True, w') \<Longrightarrow> balanced n (tw_s w) \<Longrightarrow> n + length cs < 2 ^ 64 \<Longrightarrow> balanced (n + length cs) (tw_s w')"
proof (induction cs arbitrary: n w)
  case Nil
  then show ?case by (simp add: ret_def)
next
  case (Cons c cs)
  obtain w1 where w1: "run_call c w = (Inr True, w1)" "run_calls cs w1 = (Inr True, w')"
    using Cons.prems(1) by (auto simp: andthen_def ret_def split: prod.splits sum.splits if_splits)
  have "balanced (Suc n) (tw_s w1)" by (rule run_call_balanced [OF w1(1) Cons.prems(2)]) (use Cons.prems(3) in simp)
  from Cons.IH [OF w1(2) this] Cons.prems(3) show ?case by simp
qed

lemma zeros_table: "table ks (foldl (\<lambda>m k. om_set k 0 m) [] ks) \<and> counter (foldl (\<lambda>m k. om_set k 0 m) [] ks) = (\<lambda>_. 0)"
proof -
  have "om_ok m \<Longrightarrow> om_ok (foldl (\<lambda>m k. om_set k (0 :: u64) m) m ks)
    \<and> (\<forall>x. om_find (foldl (\<lambda>m k. om_set k 0 m) m ks) x = (if x \<in> set ks then Some 0 else om_find m x))" for m
    by (induction ks arbitrary: m) (auto simp: store_simps)
  from this [of "[]"] show ?thesis by (simp add: table_def counter_def fun_eq_iff)
qed

lemma configure_balanced:
  assumes "configure dir ctl build cmp sans par w = (Inr True, w')"
  shows "balanced 0 (tw_s w')"
proof -
  obtain now d c b cm sn where "tw_s w' = tstate_init\<lparr>ts_configured := True, ts_dir := d, ts_control_dir := c,
      ts_build_id := b, ts_compiler := cm, ts_sanitizers := sn, ts_parallelism := par, ts_started_ns := now,
      ts_selected := foldl (\<lambda>m k. om_set k 0 m) [] CELLS, ts_applied := foldl (\<lambda>m k. om_set k 0 m) [] CELLS,
      ts_not_applied := foldl (\<lambda>m k. om_set k 0 m) [] CELLS, ts_verdicts := foldl (\<lambda>m k. om_set k 0 m) [] VERDICTS\<rparr>"
    using assms by (auto simp: configure_def Let_def ret_def andthen_def monotonic_ns_def upd_def modify_def
        split: option.splits if_splits list.splits)
  then show ?thesis
    using zeros_table [of CELLS] zeros_table [of VERDICTS]
    by (simp add: balanced_def tstate_init_def comp_def)
qed

text \<open>C8: after any number of recorded inputs, fewer than 2^64, all of whose recording calls returned
  true, the counters of a configured process satisfy the equations on which aggregation insists, over
  unbounded numbers: the executions are the recorded inputs, rejected at the door or decoded; the
  decoded ones are the selections summed over the cells; per cell, selected is applied plus not
  applied; the applied ones summed over the cells are the verdicts summed; and the tables have exactly
  the fixed cells and verdicts as keys.\<close>

theorem telemetry_counters_balance:
  assumes "configure dir control_dir build_id compiler sanitizers parallelism w0 = (Inr True, w)"
    and "run_calls calls w = (Inr True, w')" and "length calls < 2 ^ 64"
  shows "let s = tw_s w' in
    unat (ts_execs s) = length calls \<and> unat (ts_execs s) = unat (ts_door_rejects s) + unat (ts_decoded s)
    \<and> unat (ts_decoded s) = sum_list (map (counter (ts_selected s)) CELLS)
    \<and> (\<forall>c\<in>set CELLS. counter (ts_selected s) c = counter (ts_applied s) c + counter (ts_not_applied s) c)
    \<and> sum_list (map (counter (ts_applied s)) CELLS) = sum_list (map (counter (ts_verdicts s)) VERDICTS)
    \<and> set (om_keys (ts_selected s)) = set CELLS \<and> set (om_keys (ts_verdicts s)) = set VERDICTS"
proof -
  have "balanced (length calls) (tw_s w')"
    using run_calls_balanced [OF assms(2) configure_balanced [OF assms(1)]] assms(3) by simp
  then show ?thesis by (auto simp: balanced_def Let_def table_def om_keys_find)
qed

definition toy_tworld :: tworld where
  "toy_tworld = \<lparr>os_fs = Map.empty, os_pid = 7, os_clock = [], os_script = [], tw_s = tstate_init, tw_fault = None\<rparr>"

lemma toy_calls:
  "let w = snd (configure (Some ''d'') (Some ''c'') (Some ''b'') None None 1 toy_tworld);
       r = run_calls [Case (Some ''r4.si|extra_map_key'') True (Some ''CLEAN-SIGN'')] w in
     fst (configure (Some ''d'') (Some ''c'') (Some ''b'') None None 1 toy_tworld) = Inr True \<and> fst r = Inr True"
  by code_simp

theorem telemetry_counters_balance_witness:
  "unat (ts_execs (tw_s (snd (run_calls [Case (Some ''r4.si|extra_map_key'') True (Some ''CLEAN-SIGN'')]
     (snd (configure (Some ''d'') (Some ''c'') (Some ''b'') None None 1 toy_tworld)))))) = 1"
proof -
  let ?c = "configure (Some ''d'') (Some ''c'') (Some ''b'') None None 1 toy_tworld"
  let ?r = "run_calls [Case (Some ''r4.si|extra_map_key'') True (Some ''CLEAN-SIGN'')] (snd ?c)"
  have "?c = (Inr True, snd ?c)" "?r = (Inr True, snd ?r)" using toy_calls by (metis (no_types, lifting) prod.collapse)+
  from telemetry_counters_balance [OF this] show ?thesis by (simp add: Let_def)
qed

end
