(* ===== verification/Telemetry_Claims.thy ===== *)
theory Telemetry_Claims
  imports Telemetry
begin

text \<open>
  The job numbers of fuzzing processes. Each process claims the first number whose claim file it can
  create exclusively; the locale \<open>exclusive_names\<close> states what such a claim promises, and the claims of
  any number of processes that share a control directory are its instance: their numbers, and with
  them the paths of their documents, are pairwise distinct.
\<close>

section \<open>Names taken once\<close>

inductive chain :: "('s \<Rightarrow> 'k \<Rightarrow> 's \<Rightarrow> bool) \<Rightarrow> 's \<Rightarrow> 'k list \<Rightarrow> 's \<Rightarrow> bool" for R where
  none: "chain R s [] s"
| more: "chain R s ks t \<Longrightarrow> R t k u \<Longrightarrow> chain R s (ks @ [k]) u"

locale exclusive_names =
  fixes taken :: "'s \<Rightarrow> 'k \<Rightarrow> bool"
    and claim :: "'s \<Rightarrow> 'k \<Rightarrow> 's \<Rightarrow> bool"
  assumes claim_fresh: "claim s k t \<Longrightarrow> \<not> taken s k"
    and claim_taken: "claim s k t \<Longrightarrow> taken t k"
    and claim_keeps: "claim s k t \<Longrightarrow> taken s x \<Longrightarrow> taken t x"
begin

lemma chain_distinct: "chain claim s ks t \<Longrightarrow> distinct ks \<and> (\<forall>k\<in>set ks. taken t k)"
proof (induction rule: chain.induct)
  case (more s ks t k u)
  then show ?case using claim_fresh [OF more.hyps(2)] claim_taken [OF more.hyps(2)] claim_keeps [OF more.hyps(2)] by auto
qed simp

end

section \<open>Claiming a job\<close>

text \<open>Nothing in a claim removes a path.\<close>

definition grows :: "(tworld, 'a) proc \<Rightarrow> bool" where
  "grows m \<longleftrightarrow> (\<forall>w p. os_fs w p \<noteq> None \<longrightarrow> os_fs (snd (m w)) p \<noteq> None)"

named_theorems grow_rules "actions that remove no path"

lemma grows_run: "grows m \<Longrightarrow> m w = (r, w') \<Longrightarrow> os_fs w p \<noteq> None \<Longrightarrow> os_fs w' p \<noteq> None"
  unfolding grows_def by (metis snd_conv)

lemma grows_ret [grow_rules]: "grows (ret x)" "grows get_state" "grows (upd f)"
  by (simp_all add: grows_def ret_def get_state_def upd_def modify_def)

lemma grows_andthen [grow_rules]: "grows m \<Longrightarrow> (\<And>x. grows (f x)) \<Longrightarrow> grows (andthen m f)"
  unfolding grows_def andthen_def by (auto split: prod.split sum.split) (metis snd_conv option.distinct(1) option.exhaust)+

lemma grows_if [grow_rules]: "(b \<Longrightarrow> grows m) \<Longrightarrow> (\<not> b \<Longrightarrow> grows n) \<Longrightarrow> grows (if b then m else n)"
  by simp

lemma grows_both [grow_rules]: "grows a \<Longrightarrow> grows b \<Longrightarrow> grows (both a b)"
  unfolding both_def by (intro grow_rules)

lemma grows_syscalls [grow_rules]:
  "grows (sys_mkdir p)" "grows (sys_lstat_is_dir p)" "grows (sys_open_excl p)" "grows (sys_write p d)"
  "grows (sys_fsync p)" "grows (sys_close p)"
  by (auto simp: grows_def syscalls syscall_def append_to_def Let_def split: outcome.split option.split node.split)

lemma grows_own_claim [grow_rules]: "grows (own_claim i fd)"
  unfolding own_claim_def Let_def by (intro grow_rules)

text \<open>A successful claim: the index was free in the file system the loop started from.\<close>

lemma own_claim_True:
  assumes "own_claim i fd w = (Inr True, w')"
  shows "ts_job_index (tw_s w') = i \<and> ts_claimed (tw_s w')"
proof -
  obtain w1 where "andthen (upd (\<lambda>s. s\<lparr>ts_job_index := i, ts_claimed := True\<rparr>)) (\<lambda>_. ret True) w1 = (Inr True, w')"
    using assms unfolding own_claim_def andthen_get Let_def
    by (auto simp: andthen_def [of "both a b" for a b] andthen_def [of "sys_close a" for a] ret_def
        split: prod.splits sum.splits if_splits)
  then show ?thesis by (auto simp: andthen_upd ret_def)
qed

lemma claim_loop_True:
  assumes "claim_loop i w = (Inr True, w')" "ctl = ts_control_dir (tw_s w)"
  shows "\<exists>k. i \<le> k \<and> k < MAX_JOB_DOCUMENTS \<and> ts_job_index (tw_s w') = k \<and> os_fs w (claim_path ctl k) = None
     \<and> os_fs w' (claim_path ctl k) \<noteq> None \<and> (\<forall>p. os_fs w p \<noteq> None \<longrightarrow> os_fs w' p \<noteq> None)"
  using assms
proof (induction i w rule: claim_loop.induct)
  case (1 i w)
  let ?p = "claim_path ctl i"
  from "1.prems" have lt: "i < MAX_JOB_DOCUMENTS" by (auto simp: claim_loop.simps [of i w] split: if_splits)
  obtain q w1 where q: "sys_open_excl ?p w = (q, w1)" by fastforce
  have tel: "tw_s w1 = tw_s w" by (rule keeps_run [OF keeps_syscalls(3) q, where g = "\<lambda>s. s"])
  from "1.prems" lt q consider "q = Inr None" "claim_loop (i + 1) w1 = (Inr True, w')"
    | fd where "q = Inr (Some fd)" "own_claim i fd w1 = (Inr True, w')"
    by (auto simp: claim_loop.simps [of i w] split: sum.splits option.splits)
  then show ?case
  proof cases
    case 1
    have fs: "os_fs w1 = os_fs w"
      using q 1(1) by (auto simp: sys_open_excl_def syscall_def Let_def split: if_splits)
    obtain k where "i + 1 \<le> k" "k < MAX_JOB_DOCUMENTS" "ts_job_index (tw_s w') = k" "os_fs w1 (claim_path ctl k) = None"
      "os_fs w' (claim_path ctl k) \<noteq> None" "\<forall>p. os_fs w1 p \<noteq> None \<longrightarrow> os_fs w' p \<noteq> None"
      using "1.IH" [OF _ q [unfolded 1(1) "1.prems"(2), symmetric] refl refl 1(2)] lt "1.prems"(2) tel by auto
    with fs show ?thesis by (intro exI [of _ k]) auto
  next
    case (2 fd)
    have fs: "os_fs w ?p = None" "os_fs w1 = (os_fs w)(?p \<mapsto> File [])"
      using q 2(1) by (auto simp: sys_open_excl_def syscall_def Let_def split: if_splits)
    have g: "os_fs w1 x \<noteq> None \<Longrightarrow> os_fs w' x \<noteq> None" for x by (rule grows_run [OF grows_own_claim 2(2)])
    then have "os_fs w x \<noteq> None \<Longrightarrow> os_fs w' x \<noteq> None" for x using fs(2) by (cases "x = ?p") auto
    with g [of ?p] fs own_claim_True [OF 2(2)] lt show ?thesis by (intro exI [of _ i]) auto
  qed
qed

lemma claim_job_True:
  assumes "claim_job w = (Inr True, w')" "\<not> ts_claimed (tw_s w)" "ctl = ts_control_dir (tw_s w)"
  shows "\<exists>k. 0 \<le> k \<and> k < MAX_JOB_DOCUMENTS \<and> ts_job_index (tw_s w') = k \<and> os_fs w (claim_path ctl k) = None
     \<and> os_fs w' (claim_path ctl k) \<noteq> None \<and> (\<forall>p. os_fs w p \<noteq> None \<longrightarrow> os_fs w' p \<noteq> None)"
proof -
  let ?m = "both (mkdir_if_needed (ts_dir (tw_s w))) (mkdir_if_needed (ts_control_dir (tw_s w)))"
  obtain w1 where m: "?m w = (Inr True, w1)" and l: "claim_loop 0 w1 = (Inr True, w')"
    using assms(1,2) by (auto simp: claim_job_def andthen_get andthen_def [of "both a b" for a b] ret_def
        split: if_splits prod.splits sum.splits)
  have "grows ?m" unfolding mkdir_if_needed_def by (intro grow_rules)
  note g = grows_run [OF this m]
  have km: "keeps (\<lambda>s. s) ?m" unfolding mkdir_if_needed_def by (intro tel_rules)
  have "tw_s w1 = tw_s w" by (rule keeps_run [OF km m])
  with claim_loop_True [OF l, of ctl] assms(3) obtain k where k: "0 \<le> k" "k < MAX_JOB_DOCUMENTS" "ts_job_index (tw_s w') = k"
    "os_fs w1 (claim_path ctl k) = None" "os_fs w' (claim_path ctl k) \<noteq> None" "\<forall>p. os_fs w1 p \<noteq> None \<longrightarrow> os_fs w' p \<noteq> None"
    by auto
  moreover have "os_fs w (claim_path ctl k) = None" using g [of "claim_path ctl k"] k(4) by blast
  ultimately show ?thesis using g by (intro exI [of _ k]) blast
qed

section \<open>Processes that share a control directory\<close>

text \<open>
  One process claims job \<open>k\<close> between two states of the shared control directory: it starts from a file
  system in which every claim file of the first state is still there, and every claim file it leaves
  is still there in the second. No operation of the program removes a claim file.
\<close>

definition claims_kept :: "string \<Rightarrow> (string \<Rightarrow> node option) \<Rightarrow> (string \<Rightarrow> node option) \<Rightarrow> bool" where
  "claims_kept ctl fs fs' \<longleftrightarrow> (\<forall>k. fs (claim_path ctl k) \<noteq> None \<longrightarrow> fs' (claim_path ctl k) \<noteq> None)"

definition job_claim :: "string \<Rightarrow> (string \<Rightarrow> node option) \<Rightarrow> int \<Rightarrow> (string \<Rightarrow> node option) \<Rightarrow> bool" where
  "job_claim ctl fs k fs' \<longleftrightarrow> (\<exists>w w'. claims_kept ctl fs (os_fs w) \<and> claims_kept ctl (os_fs w') fs'
     \<and> ts_control_dir (tw_s w) = ctl \<and> \<not> ts_claimed (tw_s w) \<and> claim_job w = (Inr True, w') \<and> ts_job_index (tw_s w') = k)"

interpretation jobs: exclusive_names "\<lambda>fs k. fs (claim_path ctl k) \<noteq> None" "job_claim ctl"
proof
  fix fs k fs' assume c: "job_claim ctl fs k fs'"
  then obtain w w' where w: "claims_kept ctl fs (os_fs w)" "claims_kept ctl (os_fs w') fs'" "ctl = ts_control_dir (tw_s w)"
    "\<not> ts_claimed (tw_s w)" "claim_job w = (Inr True, w')" "ts_job_index (tw_s w') = k"
    unfolding job_claim_def by blast
  from claim_job_True [OF w(5,4,3)] w(6) have k: "os_fs w (claim_path ctl k) = None" "os_fs w' (claim_path ctl k) \<noteq> None"
    "\<And>p. os_fs w p \<noteq> None \<Longrightarrow> os_fs w' p \<noteq> None" by auto
  show "\<not> fs (claim_path ctl k) \<noteq> None" using w(1) k(1) by (auto simp: claims_kept_def)
  show "fs' (claim_path ctl k) \<noteq> None" using w(2) k(2) by (auto simp: claims_kept_def)
  show "fs' (claim_path ctl x) \<noteq> None" if "fs (claim_path ctl x) \<noteq> None" for x
    using that w(1,2) k(3) unfolding claims_kept_def by blast
qed

lemma to_string_int_inject: "to_string_int i = to_string_int j \<longleftrightarrow> i = j"
proof -
  have d: "CHR ''-'' \<notin> set (dec_of_nat n)" for n using dec_of_nat_digits [of "CHR ''-''" n] by auto
  have "dec_of_nat n \<noteq> CHR ''-'' # xs" "CHR ''-'' # xs \<noteq> dec_of_nat n" for n xs
    using d [of n] by (metis list.set_intros(1))+
  then show ?thesis by (auto simp: to_string_int_def)
qed


definition claimant :: tworld where
  "claimant = toy_tworld\<lparr>tw_s := tstate_init\<lparr>ts_configured := True, ts_dir := ''d'', ts_control_dir := ''c''\<rparr>\<rparr>"

lemma claimant_runs:
  "(case claim_job claimant of (r, w) \<Rightarrow> r = Inr True \<and> ts_job_index (tw_s w) = 0
     \<and> (case claim_job (claimant\<lparr>os_fs := os_fs w\<rparr>) of (r', w') \<Rightarrow> r' = Inr True \<and> ts_job_index (tw_s w') = 1))"
  by code_simp


end
