(* ===== verification/C_Numbers.thy ===== *)
theory C_Numbers
  imports Prelude
begin

unbundle bit_operations_syntax

text \<open>
  The number parsers of the C library that the programs apply to their arguments and environment:
  \<^verbatim>\<open>strtoull\<close> (on the supported platforms also \<^verbatim>\<open>strtoul\<close>) with base 0 or 10, and
  \<^verbatim>\<open>atoi\<close>. They skip white space, read an optional sign and, for base 0, a prefix; they read
  as many digits as there are, answer zero when there are none, and saturate.
\<close>

definition is_space :: "char \<Rightarrow> bool" where
  "is_space c \<longleftrightarrow> c \<in> set '' '' \<or> of_char c \<in> {9 .. 13 :: nat}"

definition digit_value :: "char \<Rightarrow> nat option" where
  "digit_value c =
     (let n = of_char c :: nat in
      if 48 \<le> n \<and> n \<le> 57 then Some (n - 48)
      else if 97 \<le> n \<and> n \<le> 122 then Some (n - 87)
      else if 65 \<le> n \<and> n \<le> 90 then Some (n - 55)
      else None)"

definition digit_of :: "nat \<Rightarrow> char \<Rightarrow> bool" where
  "digit_of base c = (case digit_value c of None \<Rightarrow> False | Some d \<Rightarrow> d < base)"

definition digits_value :: "nat \<Rightarrow> string \<Rightarrow> nat" where
  "digits_value base s = foldl (\<lambda>a c. base * a + (case digit_value c of None \<Rightarrow> 0 | Some d \<Rightarrow> d)) 0 s"

text \<open>The sign and the rest after white space and sign.\<close>

definition read_sign :: "string \<Rightarrow> bool \<times> string" where
  "read_sign s =
     (case dropWhile is_space s of
        [] \<Rightarrow> (False, [])
      | c # cs \<Rightarrow> if c = CHR ''-'' then (True, cs) else if c = CHR ''+'' then (False, cs) else (False, c # cs))"

text \<open>The base and the rest after a prefix; \<open>0x\<close> is a prefix only before a hexadecimal digit.\<close>

definition read_prefix :: "nat \<Rightarrow> string \<Rightarrow> nat \<times> string" where
  "read_prefix base s =
     (if base \<noteq> 0 then (base, s)
      else case s of
        z # x # d # rest \<Rightarrow>
          if z = CHR ''0'' \<and> (x = CHR ''x'' \<or> x = CHR ''X'') \<and> digit_of 16 d then (16, d # rest)
          else if z = CHR ''0'' then (8, s) else (10, s)
      | z # _ \<Rightarrow> if z = CHR ''0'' then (8, s) else (10, s)
      | [] \<Rightarrow> (10, s))"

definition strtoull :: "nat \<Rightarrow> string \<Rightarrow> u64" where
  "strtoull base s =
     (let (neg, s1) = read_sign s;
          (b, s2) = read_prefix base s1;
          v = digits_value b (takeWhile (digit_of b) s2)
      in if 2 ^ 64 \<le> v then - 1 else if neg then - of_nat v else of_nat v)"

definition strtol10 :: "string \<Rightarrow> int" where
  "strtol10 s =
     (let (neg, s1) = read_sign s;
          v = int (digits_value 10 (takeWhile (digit_of 10) s1))
      in if neg then max (- (2 ^ 63)) (- v) else min (2 ^ 63 - 1) v)"

definition atoi :: "string \<Rightarrow> int" where
  "atoi s = sint (of_int (strtol10 s) :: 32 word)"

text \<open>What \<^verbatim>\<open>std::to_string\<close> prints, \<^verbatim>\<open>strtoull\<close> reads back, with base 10 and with base 0.\<close>

lemma digit_char_value: "d < 10 \<Longrightarrow> digit_value (digit_char d) = Some d"
  by (simp add: digit_value_def of_char_digit Let_def)

lemma digit_char_digit: "d < 10 \<Longrightarrow> digit_of 10 (digit_char d)"
  by (simp add: digit_of_def digit_char_value)

lemma dec_of_nat_all_digits: "list_all (digit_of 10) (dec_of_nat n)"
proof (induction n rule: dec_of_nat.induct)
  case (1 n)
  then show ?case
    by (subst dec_of_nat.simps) (auto simp: digit_char_digit)
qed

lemma digits_value_dec_of_nat: "digits_value 10 (dec_of_nat n) = n"
proof (induction n rule: dec_of_nat.induct)
  case (1 n)
  then show ?case
    by (subst dec_of_nat.simps) (auto simp: digits_value_def digit_char_value)
qed

lemma dec_of_nat_hd: "0 < n \<Longrightarrow> hd (dec_of_nat n) \<noteq> CHR ''0''"
proof (induction n rule: dec_of_nat.induct)
  case (1 n)
  have d: "digit_char k \<noteq> CHR ''0''" if "0 < k" "k < 10" for k
    using that digit_char_value [of k] by (auto simp: digit_value_def Let_def)
  show ?case
  proof (cases "n < 10")
    case True
    with 1 d show ?thesis by (simp add: dec_of_nat.simps [of n])
  next
    case False
    then show ?thesis using 1 by (simp add: dec_of_nat.simps [of n])
  qed
qed

lemma dec_of_nat_shape:
  obtains c cs where "dec_of_nat n = c # cs" "\<not> is_space c" "c \<noteq> CHR ''-''" "c \<noteq> CHR ''+''"
    "takeWhile (digit_of 10) (c # cs) = c # cs" "digits_value 10 (c # cs) = n"
proof -
  have all: "\<forall>c\<in>set (dec_of_nat n). digit_of 10 c" using dec_of_nat_all_digits [of n] by (simp add: list_all_iff)
  obtain c cs where s: "dec_of_nat n = c # cs" by (cases "dec_of_nat n") auto
  have "digit_of 10 c" using all s by simp
  then have c: "\<not> is_space c" "c \<noteq> CHR ''-''" "c \<noteq> CHR ''+''"
    by (auto simp: digit_of_def digit_value_def is_space_def Let_def split: if_splits)
  have "takeWhile (digit_of 10) (c # cs) = c # cs" using all s by (metis takeWhile_eq_all_conv)
  moreover have "digits_value 10 (c # cs) = n" unfolding s [symmetric] by (rule digits_value_dec_of_nat)
  ultimately show ?thesis using s c by (intro that)
qed

lemma read_sign_dec_of_nat: "read_sign (dec_of_nat n) = (False, dec_of_nat n)"
  by (rule dec_of_nat_shape [of n]) (simp add: read_sign_def)

lemma decimal_dec_of_nat: "digits_value 10 (takeWhile (digit_of 10) (dec_of_nat n)) = n"
  by (rule dec_of_nat_shape [of n]) metis

lemma unat_below_64: "unat (v :: u64) < 18446744073709551616"
  using unsigned_less [where 'a = nat and 'b = 64, of v] by simp

lemma strtoull_to_string: "strtoull 10 (to_string_u64 v) = v"
  using unat_below_64 [of v]
  by (simp add: strtoull_def read_sign_dec_of_nat read_prefix_def to_string_u64_def decimal_dec_of_nat not_le)

lemma read_prefix_dec_of_nat: "0 < n \<Longrightarrow> read_prefix 0 (dec_of_nat n) = (10, dec_of_nat n)"
  using dec_of_nat_hd [of n]
  by (rule_tac dec_of_nat_shape [of n]) (auto simp: read_prefix_def split: list.splits)

lemma strtoull_to_string_any_base: "strtoull 0 (to_string_u64 v) = v"
proof (cases "v = 0")
  case True
  have "read_prefix 0 (dec_of_nat 0) = (8, ''0'')" "digits_value 8 (takeWhile (digit_of 8) ''0'') = 0"
    by code_simp+
  with True show ?thesis by (simp add: strtoull_def read_sign_dec_of_nat to_string_u64_def)
next
  case False
  then have "0 < unat v" by (simp add: unat_gt_0)
  then show ?thesis
    using unat_below_64 [of v]
    by (simp add: strtoull_def read_sign_dec_of_nat read_prefix_dec_of_nat to_string_u64_def decimal_dec_of_nat not_le)
qed

end
