(* ===== verification/Fuzzers.thy ===== *)
theory Fuzzers
  imports Driver_Repeat Dual_Oracles Telemetry_Claims C_Numbers
begin

unbundle bit_operations_syntax

text \<open>
  The three libFuzzer programs: \<^verbatim>\<open>fuzzer.cpp\<close> (V1, every field), \<^verbatim>\<open>fuzzer_reachability_v2.cpp\<close>
  (V2, the two canary fields, with telemetry) and \<^verbatim>\<open>fuzzer_dual_session.cpp\<close> (schedules of two
  ceremonies). Each has \<^verbatim>\<open>LLVMFuzzerInitialize\<close> and \<^verbatim>\<open>LLVMFuzzerTestOneInput\<close>, here actions on
  the state of the process, with the suffix of the program. What a program is linked with (OpenSSL, the
  key and algebra code, the signing service) is the record \<open>linked\<close>; \<^verbatim>\<open>std::getenv\<close> is a function, a
  null pointer \<^term>\<open>None\<close>. The elapsed milliseconds a run measures are an argument.
  The dual-session program never installs the deterministic generator: what its library draws is then
  not the stream of \<open>p_rng\<close>, which reseeding still sets, but randomness of the service's own state.
\<close>

section \<open>The process\<close>

text \<open>A process ends with an exit status, by \<^verbatim>\<open>abort\<close>, or by leaving what the language defines.\<close>

datatype ending = Exits int | Aborts | Uncaught | Undefined

record ('c, 'l, 'pp, 'ps, 'rp, 'rs) linked =
  lk_openssl :: openssl
  lk_setup :: "('pp, 'ps, 'rp, 'rs) setup_lib"
  lk_algebra :: "'c algebra_lib"
  lk_service :: "('l, 'pp, 'ps, 'rp, 'rs) cmp_service"

record ('pp, 'ps, 'rp, 'rs) process =
  p_rng :: rng_globals
  p_snap :: snapshot
  p_session :: "('pp, 'ps, 'rp, 'rs) session option"
  p_shard_seed :: u64
  p_telemetry :: tworld
  p_atexit :: bool
  p_stderr :: "string list"

type_synonym ('pp, 'ps, 'rp, 'rs, 'a) fuzz = "(ending, ('pp, 'ps, 'rp, 'rs) process, 'a) action"

definition say :: "string \<Rightarrow> ('pp, 'ps, 'rp, 'rs, unit) fuzz" where
  "say line = modify (\<lambda>p. p\<lparr>p_stderr := p_stderr p @ [line]\<rparr>)"

definition fail_closed :: "string \<Rightarrow> ('pp, 'ps, 'rp, 'rs, 'a) fuzz" where
  "fail_closed reason = andthen (say (''FIREBLOCKS_HARNESS_FAIL_CLOSED reason='' @ reason)) (\<lambda>_. exit_with (Exits 86))"

definition fnv1a64 :: "bytes \<Rightarrow> u64" where
  "fnv1a64 data = foldl (\<lambda>h b. (h XOR ucast b) * 1099511628211) 1469598103934665603 data"

definition signal_finding :: "run_result \<Rightarrow> ('pp, 'ps, 'rp, 'rs, 'a) fuzz" where
  "signal_finding result = andthen (say (''FIREBLOCKS_HIGH_SIGNAL verdict='' @ verdict_name (rr_v result)
      @ '' round='' @ to_string_int (rr_failed_round result)
      @ '' mutations_applied='' @ dec_of_nat (rr_mutations_applied result))) (\<lambda>_. exit_with Aborts)"

definition signal_oracle :: "string \<Rightarrow> ('pp, 'ps, 'rp, 'rs, 'a) fuzz" where
  "signal_oracle oracle = andthen (say (''FIREBLOCKS_HIGH_SIGNAL oracle='' @ oracle)) (\<lambda>_. exit_with Aborts)"

text \<open>A call of the telemetry, which works on its own part of the process and may end it.\<close>

definition telemetry :: "(tworld, 'a) proc \<Rightarrow> ('pp, 'ps, 'rp, 'rs, 'a) fuzz" where
  "telemetry m p =
     (case m (p_telemetry p) of
        (Inl c, w) \<Rightarrow> (Inl (Exits c), p\<lparr>p_telemetry := w\<rparr>)
      | (Inr x, w) \<Rightarrow> (Inr x, p\<lparr>p_telemetry := w\<rparr>))"

text \<open>\<^verbatim>\<open>if (!record(...)) fail_closed("telemetry_publish_failed");\<close>\<close>

definition recorded :: "(tworld, bool) proc \<Rightarrow> ('pp, 'ps, 'rp, 'rs, unit) fuzz" where
  "recorded m = andthen (telemetry m) (\<lambda>ok. if ok then ret () else fail_closed ''telemetry_publish_failed'')"

text \<open>An optional value that is there and is not the empty string.\<close>

definition given :: "string option \<Rightarrow> bool" where
  "given x = (case x of None \<Rightarrow> False | Some s \<Rightarrow> s \<noteq> [])"

section \<open>Starting a program\<close>

definition start_generator :: "('c, 'l, 'pp, 'ps, 'rp, 'rs) linked \<Rightarrow> ('pp, 'ps, 'rp, 'rs, unit) fuzz" where
  "start_generator lk = andthen get_state (\<lambda>p.
     let (inst, g) = install_deterministic_rand (lk_openssl lk) (p_rng p);
         (ok, g) = (if inst then self_test (lk_openssl lk) g else (False, g)) in
     andthen (modify (\<lambda>p. p\<lparr>p_rng := g\<rparr>)) (\<lambda>_.
     if ok then ret () else fail_closed ''deterministic_rng_unavailable''))"

definition load_fixture :: "('c, 'l, 'pp, 'ps, 'rp, 'rs) linked \<Rightarrow> (string \<Rightarrow> string option) \<Rightarrow> file_system
    \<Rightarrow> ('pp, 'ps, 'rp, 'rs, unit) fuzz" where
  "load_fixture lk getenv fs =
     (case getenv ''FIREBLOCKS_SNAPSHOT'' of
        None \<Rightarrow> fail_closed ''snapshot_path_missing''
      | Some path \<Rightarrow>
          if path = [] then fail_closed ''snapshot_path_missing''
          else (case read_snapshot path fs of
            Inl _ \<Rightarrow> fail_closed ''snapshot_invalid''
          | Inr snap \<Rightarrow> andthen (modify (\<lambda>p. p\<lparr>p_snap := snap\<rparr>)) (\<lambda>_.
              if verify_snapshot (lk_setup lk) snap \<noteq> Inr () then fail_closed ''snapshot_invalid'' else ret ())))"

text \<open>The probe of the generator; \<open>announce\<close> is what a program prints before it gives up.\<close>

definition probe_generator :: "('c, 'l, 'pp, 'ps, 'rp, 'rs) linked \<Rightarrow> (rng_stage \<Rightarrow> ('pp, 'ps, 'rp, 'rs, unit) fuzz)
    \<Rightarrow> ('pp, 'ps, 'rp, 'rs, unit) fuzz" where
  "probe_generator lk announce = andthen get_state (\<lambda>p.
     let (r, g) = rng_is_effective (lk_setup lk) (lk_service lk) (p_snap p) (g_state (p_rng p)) in
     andthen (modify (\<lambda>p. p\<lparr>p_rng := (p_rng p)\<lparr>g_state := g\<rparr>\<rparr>)) (\<lambda>_.
     case r of
       Inl _ \<Rightarrow> exit_with Undefined
     | Inr (Inl (Inl _)) \<Rightarrow> exit_with Uncaught
     | Inr (Inl (Inr (stage, _))) \<Rightarrow> andthen (announce stage) (\<lambda>_. fail_closed ''rng_not_effective'')
     | Inr (Inr _) \<Rightarrow> ret ()))"

definition read_shard_seed :: "(string \<Rightarrow> string option) \<Rightarrow> ('pp, 'ps, 'rp, 'rs, unit) fuzz" where
  "read_shard_seed getenv =
     (case getenv ''FIREBLOCKS_SHARD_SEED'' of
        None \<Rightarrow> ret ()
      | Some shard \<Rightarrow> modify (\<lambda>p. p\<lparr>p_shard_seed := strtoull 10 shard\<rparr>))"

text \<open>The constructor of \<^verbatim>\<open>session\<close> or \<^verbatim>\<open>dual_session\<close>, and the check that it installed the keys.\<close>

definition open_session :: "('c, 'l, 'pp, 'ps, 'rp, 'rs) linked
    \<Rightarrow> (('pp, 'ps, 'rp, 'rs) setup_lib \<Rightarrow> snapshot \<Rightarrow> string \<Rightarrow> (fault + unit) \<times> ('pp, 'ps, 'rp, 'rs) session)
    \<Rightarrow> string \<Rightarrow> ('pp, 'ps, 'rp, 'rs, unit) fuzz" where
  "open_session lk new reason = andthen get_state (\<lambda>p.
     case new (lk_setup lk) (p_snap p) ''opus-key'' of
       (Inl Out_of_bounds, _) \<Rightarrow> exit_with Undefined
     | (_, se) \<Rightarrow> andthen (modify (\<lambda>p. p\<lparr>p_session := Some se\<rparr>)) (\<lambda>_.
         if se_ok se then ret () else fail_closed reason))"

text \<open>The last \<^verbatim>\<open>-fork=\<close> of the arguments, or the program's default.\<close>

definition is_fork_flag :: "string \<Rightarrow> bool" where
  "is_fork_flag arg \<longleftrightarrow> take 6 arg = ''-fork=''"

definition fork_flag :: "int \<Rightarrow> string list option \<Rightarrow> int" where
  "fork_flag unset args =
     (case args of None \<Rightarrow> unset
      | Some argv \<Rightarrow> foldl (\<lambda>f arg. if is_fork_flag arg then atoi (drop 6 arg) else f) unset argv)"

definition start_telemetry :: "(string \<Rightarrow> string option) \<Rightarrow> string \<Rightarrow> int \<Rightarrow> ('pp, 'ps, 'rp, 'rs, unit) fuzz" where
  "start_telemetry getenv build fork =
     (let tdir = getenv ''FIREBLOCKS_TELEMETRY_DIR'';
          control = getenv ''FIREBLOCKS_TELEMETRY_CONTROL_DIR'';
          count = (case getenv ''FIREBLOCKS_FORK_COUNT'' of None \<Rightarrow> 1 | Some fc \<Rightarrow> atoi fc) in
      if \<not> (given tdir \<and> fork \<le> 0) then ret ()
      else if \<not> given control then fail_closed ''telemetry_config_invalid''
      else andthen (telemetry (configure tdir control (Some build) (Some ''clang'') (Some ''asan+ubsan'') count)) (\<lambda>ok.
        if \<not> ok then fail_closed ''telemetry_config_invalid''
        else modify (\<lambda>p. p\<lparr>p_atexit := True\<rparr>)))"

section \<open>V1: every field\<close>

record field_spec =
  f_round :: int
  f_field :: wire_field
  f_byte_vector :: bool

definition FIELDS :: "field_spec list" where
  "FIELDS = [
     \<lparr>f_round = 1, f_field = R1_MTA_MESSAGE, f_byte_vector = True\<rparr>,
     \<lparr>f_round = 1, f_field = R1_MTA_COMMITMENT, f_byte_vector = True\<rparr>,
     \<lparr>f_round = 1, f_field = R1_MTA_PROOFS_ENTRY, f_byte_vector = True\<rparr>,
     \<lparr>f_round = 1, f_field = R1_POINT_A, f_byte_vector = False\<rparr>,
     \<lparr>f_round = 1, f_field = R1_POINT_B, f_byte_vector = False\<rparr>,
     \<lparr>f_round = 1, f_field = R1_POINT_Z, f_byte_vector = False\<rparr>,
     \<lparr>f_round = 2, f_field = R2_ACK, f_byte_vector = False\<rparr>,
     \<lparr>f_round = 2, f_field = R2_K_GAMMA_MTA_MESSAGE, f_byte_vector = True\<rparr>,
     \<lparr>f_round = 2, f_field = R2_K_X_MTA_MESSAGE, f_byte_vector = True\<rparr>,
     \<lparr>f_round = 2, f_field = R2_GAMMA, f_byte_vector = False\<rparr>,
     \<lparr>f_round = 2, f_field = R2_GAMMA_PROOFS_ENTRY, f_byte_vector = True\<rparr>,
     \<lparr>f_round = 3, f_field = R3_DELTA, f_byte_vector = False\<rparr>,
     \<lparr>f_round = 3, f_field = R3_DELTA_POINT, f_byte_vector = False\<rparr>,
     \<lparr>f_round = 3, f_field = R3_PROOF, f_byte_vector = True\<rparr>,
     \<lparr>f_round = 4, f_field = R4_SI, f_byte_vector = False\<rparr>]"

definition LLVMFuzzerInitialize :: "('c, 'l, 'pp, 'ps, 'rp, 'rs) linked \<Rightarrow> (string \<Rightarrow> string option) \<Rightarrow> file_system
    \<Rightarrow> ('pp, 'ps, 'rp, 'rs, int) fuzz" where
  "LLVMFuzzerInitialize lk getenv fs =
     andthen (start_generator lk) (\<lambda>_.
     andthen (load_fixture lk getenv fs) (\<lambda>_.
     andthen (probe_generator lk (\<lambda>_. ret ())) (\<lambda>_.
     andthen get_state (\<lambda>p.
     if length (s_players (p_snap p)) < 2 then fail_closed ''insufficient_players''
     else andthen (read_shard_seed getenv) (\<lambda>_.
     andthen (open_session lk session_new ''session_unavailable'') (\<lambda>_. ret 0))))))"

text \<open>The indices and positions an input selects.\<close>

definition at_byte :: "bytes \<Rightarrow> nat \<Rightarrow> nat" where
  "at_byte data i = unat (data ! i)"

definition byte_op :: "bytes \<Rightarrow> wire_op" where
  "byte_op data = [FLIP_BIT, ZERO, TRUNCATE] ! (at_byte data 3 mod 3)"

definition input_mutation :: "field_spec \<Rightarrow> wire_op \<Rightarrow> u64 \<Rightarrow> nat \<Rightarrow> bytes \<Rightarrow> mutation" where
  "input_mutation selected operation attacker blocks data =
     \<lparr>m_round = f_round selected, m_attacker = attacker, m_field = f_field selected, m_op = operation,
      m_block = at_byte data 5 mod blocks,
      m_byte_index = unat ((push_bit 8 (ucast (data ! 6)) OR ucast (data ! 7)) :: u64),
      m_bit = (if 8 < length data then data ! 8 else data ! 7) AND 7\<rparr>"

definition input_config :: "string \<Rightarrow> u64 \<Rightarrow> u64 list \<Rightarrow> field_spec \<Rightarrow> wire_op \<Rightarrow> u64 \<Rightarrow> bytes \<Rightarrow> run_config" where
  "input_config txid_head shard signers selected operation attacker data =
     (let digest = fnv1a64 data XOR shard; blocks = 1 + at_byte data 1 mod 5 in
      run_config_default\<lparr>rc_seed := digest, rc_txid := txid_head @ to_string_u64 digest, rc_blocks := blocks,
        rc_metadata_json := (if data ! 4 AND 1 \<noteq> 0 then ''positive_r'' else []), rc_malicious_ids := [attacker],
        rc_signers_ids := signers, rc_timeout_ms := 30000,
        rc_mutations := [input_mutation selected operation attacker blocks data]\<rparr>)"

definition op_v1 :: "field_spec \<Rightarrow> bytes \<Rightarrow> wire_op" where
  "op_v1 selected data =
     (if f_byte_vector selected then byte_op data
      else if data ! 3 AND 1 \<noteq> 0 then ZERO else FLIP_BIT)"

definition decode_v1 :: "snapshot \<Rightarrow> u64 \<Rightarrow> bytes \<Rightarrow> run_config" where
  "decode_v1 snap shard data =
     (let selected = FIELDS ! (at_byte data 0 mod length FIELDS);
          attacker = player_ids snap ! (at_byte data 2 mod length (player_ids snap))
      in input_config ''fz-'' shard [] selected (op_v1 selected data) attacker data)"

text \<open>\<^verbatim>\<open>rt.session->run(config)\<close>.\<close>

definition run_input :: "('c, 'l, 'pp, 'ps, 'rp, 'rs) linked \<Rightarrow> ('pp, 'ps, 'rp, 'rs) session \<Rightarrow> run_config \<Rightarrow> u64
    \<Rightarrow> ('pp, 'ps, 'rp, 'rs, run_result) fuzz" where
  "run_input lk se cfg elapsed = andthen get_state (\<lambda>p.
     let (r, se', g) = session_run (lk_setup lk) (lk_algebra lk) (lk_service lk) cfg elapsed se (g_state (p_rng p)) in
     andthen (modify (\<lambda>p. p\<lparr>p_session := Some se', p_rng := (p_rng p)\<lparr>g_state := g\<rparr>\<rparr>)) (\<lambda>_.
     case r of None \<Rightarrow> exit_with Undefined | Some result \<Rightarrow> ret result))"

text \<open>The last \<^verbatim>\<open>switch\<close> of V1 and V2.\<close>

definition conclude :: "run_result \<Rightarrow> ('pp, 'ps, 'rp, 'rs, int) fuzz" where
  "conclude result =
     (case rr_v result of
        CLEAN_REJECT \<Rightarrow> ret 0
      | CLEAN_SIGN \<Rightarrow> ret 0
      | INVALID_SIGNATURE \<Rightarrow> signal_finding result
      | STATE_CORRUPTION \<Rightarrow> signal_finding result
      | CRASH \<Rightarrow> signal_finding result
      | TIMEOUT \<Rightarrow> signal_finding result
      | HARNESS_FAULT \<Rightarrow> fail_closed ''harness_fault'')"

text \<open>A null pointer is \<open>None\<close>. Without players the remainder that selects the attacker is undefined.\<close>

definition in_door :: "nat \<Rightarrow> bytes option \<Rightarrow> bool" where
  "in_door least data = (case data of None \<Rightarrow> False | Some bs \<Rightarrow> \<not> (length bs < least \<or> 4096 < length bs))"

definition LLVMFuzzerTestOneInput :: "('c, 'l, 'pp, 'ps, 'rp, 'rs) linked \<Rightarrow> bytes option \<Rightarrow> u64
    \<Rightarrow> ('pp, 'ps, 'rp, 'rs, int) fuzz" where
  "LLVMFuzzerTestOneInput lk data elapsed =
     (if \<not> in_door 8 data then ret 0
      else andthen get_state (\<lambda>p.
        case p_session p of
          None \<Rightarrow> fail_closed ''runtime_not_initialized''
        | Some se \<Rightarrow>
            if s_players (p_snap p) = [] then exit_with Undefined
            else andthen (run_input lk se (decode_v1 (p_snap p) (p_shard_seed p) (the data)) elapsed) (\<lambda>result.
              if rr_mutations_applied result = 0 then ret 0 else conclude result)))"

section \<open>V2: the canary fields, with telemetry\<close>

definition FIELDS_V2 :: "field_spec list" where
  "FIELDS_V2 = [\<lparr>f_round = 1, f_field = R1_MTA_PROOFS_ENTRY, f_byte_vector = True\<rparr>,
     \<lparr>f_round = 4, f_field = R4_SI, f_byte_vector = False\<rparr>]"

definition cell_key :: "field_spec \<Rightarrow> wire_op \<Rightarrow> string" where
  "cell_key f operation =
     (if f_field f = R1_MTA_PROOFS_ENTRY
      then (case operation of
              FLIP_BIT \<Rightarrow> ''r1.mta_proofs[victim]|flip_bit''
            | ZERO \<Rightarrow> ''r1.mta_proofs[victim]|zero''
            | _ \<Rightarrow> ''r1.mta_proofs[victim]|truncate'')
      else if f_field f = R4_SI \<and> operation = EXTRA_MAP_KEY then ''r4.si|extra_map_key''
      else [])"

text \<open>\<^verbatim>\<open>publish_telemetry_at_exit\<close>, which runs when the program returns from \<^verbatim>\<open>main\<close>.\<close>

definition publish_telemetry_at_exit :: "('pp, 'ps, 'rp, 'rs, unit) fuzz" where
  "publish_telemetry_at_exit = andthen (telemetry publish) (\<lambda>_. ret ())"

definition LLVMFuzzerInitialize_v2 :: "('c, 'l, 'pp, 'ps, 'rp, 'rs) linked \<Rightarrow> (string \<Rightarrow> string option) \<Rightarrow> file_system
    \<Rightarrow> string list option \<Rightarrow> ('pp, 'ps, 'rp, 'rs, int) fuzz" where
  "LLVMFuzzerInitialize_v2 lk getenv fs args =
     andthen (start_generator lk) (\<lambda>_.
     andthen (load_fixture lk getenv fs) (\<lambda>_.
     andthen (probe_generator lk (\<lambda>stage. say (''FIREBLOCKS_RNG_PROBE_STAGE stage='' @ rng_probe_stage stage))) (\<lambda>_.
     andthen get_state (\<lambda>p.
     if length (s_players (p_snap p)) < 3 then fail_closed ''unsupported_fixture_players''
     else andthen (read_shard_seed getenv) (\<lambda>_.
     andthen (open_session lk session_new ''session_invalid'') (\<lambda>_.
     andthen (start_telemetry getenv ''v2-r4-extrakey'' (fork_flag (-1) args)) (\<lambda>_. ret 0)))))))"

text \<open>The designated signers of a snapshot with fewer signers than players; no list for all players.\<close>

definition signers_v2 :: "u64 list \<Rightarrow> byte \<Rightarrow> u64 list" where
  "signers_v2 players t = (if unat t < length players then take (unat t) players else [])"

definition op_v2 :: "field_spec \<Rightarrow> bytes \<Rightarrow> wire_op" where
  "op_v2 selected data = (if f_byte_vector selected then byte_op data else EXTRA_MAP_KEY)"

definition select_v2 :: "bytes \<Rightarrow> field_spec" where
  "select_v2 data = FIELDS_V2 ! (at_byte data 0 mod length FIELDS_V2)"

definition decode_v2 :: "u64 list \<Rightarrow> byte \<Rightarrow> u64 \<Rightarrow> bytes \<Rightarrow> run_config" where
  "decode_v2 players t shard data =
     (let signers = signers_v2 players t;
          participants = (if signers = [] then players else signers);
          attacker = participants ! (at_byte data 2 mod length participants);
          selected = select_v2 data
      in input_config ''fz2-'' shard signers selected (op_v2 selected data) attacker data)"

definition LLVMFuzzerTestOneInput_v2 :: "('c, 'l, 'pp, 'ps, 'rp, 'rs) linked \<Rightarrow> bytes option \<Rightarrow> u64
    \<Rightarrow> ('pp, 'ps, 'rp, 'rs, int) fuzz" where
  "LLVMFuzzerTestOneInput_v2 lk data elapsed =
     (if \<not> in_door 8 data then andthen (recorded record_door_reject) (\<lambda>_. ret 0)
      else andthen get_state (\<lambda>p.
        case p_session p of
          None \<Rightarrow> fail_closed ''runtime_not_initialized''
        | Some se \<Rightarrow>
            if length (se_ids se) < 2 then fail_closed ''insufficient_players''
            else
              let selected = select_v2 (the data); cell = cell_key selected (op_v2 selected (the data)) in
              andthen (run_input lk se (decode_v2 (se_ids se) (s_t (p_snap p)) (p_shard_seed p) (the data)) elapsed) (\<lambda>result.
              if rr_v result = HARNESS_FAULT then fail_closed ''harness_fault''
              else if rr_mutations_applied result = 0
              then andthen (recorded (record_case (Some cell) False None)) (\<lambda>_. ret 0)
              else
                andthen (recorded (record_case (Some cell) True (Some (verdict_name (rr_v result))))) (\<lambda>_.
                andthen (say (''FIREBLOCKS_ROUND verdict='' @ verdict_name (rr_v result)
                   @ '' round='' @ to_string_int (rr_failed_round result))) (\<lambda>_.
                conclude result)))))"

section \<open>The dual-session program\<close>

definition schedule_cell :: "nat \<Rightarrow> nat \<Rightarrow> string" where
  "schedule_cell crossings steps =
     (if crossings = 0 then ''dual.schedule|sequential''
      else if 0 < steps \<and> steps \<le> crossings * 2 then ''dual.schedule|alternating''
      else ''dual.schedule|blocked'')"

text \<open>\<^verbatim>\<open>rt.session->run(seed, schedule)\<close>, the key stores and the generator carried on.\<close>

definition run_schedule :: "('c, 'l, 'pp, 'ps, 'rp, 'rs) linked \<Rightarrow> ('pp, 'ps, 'rp, 'rs) dual_session \<Rightarrow> u64 \<Rightarrow> bytes \<Rightarrow> u64
    \<Rightarrow> ('pp, 'ps, 'rp, 'rs, dual_result) fuzz" where
  "run_schedule lk se seed schedule elapsed = andthen get_state (\<lambda>p.
     let (r, se', g) = dual_run (lk_setup lk) (lk_algebra lk) (lk_service lk) seed schedule elapsed se (g_state (p_rng p)) in
     andthen (modify (\<lambda>p. p\<lparr>p_session := Some se', p_rng := (p_rng p)\<lparr>g_state := g\<rparr>\<rparr>)) (\<lambda>_.
     case r of None \<Rightarrow> exit_with Undefined | Some result \<Rightarrow> ret result))"

text \<open>The control that has to pass before any input is accepted; \<open>elapsed\<close> is its duration.\<close>

definition dual_control :: "('c, 'l, 'pp, 'ps, 'rp, 'rs) linked \<Rightarrow> u64 \<Rightarrow> ('pp, 'ps, 'rp, 'rs, unit) fuzz" where
  "dual_control lk elapsed = andthen get_state (\<lambda>p.
     case p_session p of
       None \<Rightarrow> fail_closed ''session_invalid''
     | Some se \<Rightarrow>
         andthen (run_schedule lk se (p_shard_seed p) (map (\<lambda>i. of_nat i AND 1) [0..<12]) elapsed) (\<lambda>control.
         if \<not> dr_both_completed control \<or> \<not> dr_signatures_valid control \<or> dr_harness_fault control \<or> any_finding control
         then fail_closed ''dual_control_failed'' else ret ()))"

definition LLVMFuzzerInitialize_dual :: "('c, 'l, 'pp, 'ps, 'rp, 'rs) linked \<Rightarrow> (string \<Rightarrow> string option) \<Rightarrow> file_system
    \<Rightarrow> string list option \<Rightarrow> u64 \<Rightarrow> ('pp, 'ps, 'rp, 'rs, int) fuzz" where
  "LLVMFuzzerInitialize_dual lk getenv fs args elapsed =
     andthen (load_fixture lk getenv fs) (\<lambda>_.
     andthen (read_shard_seed getenv) (\<lambda>_.
     andthen (open_session lk dual_session_new ''session_invalid'') (\<lambda>_.
     andthen (dual_control lk elapsed) (\<lambda>_.
     andthen (start_telemetry getenv ''v3-dual-session'' (fork_flag 0 args)) (\<lambda>_. ret 0)))))"

definition dual_verdict :: "dual_result \<Rightarrow> string" where
  "dual_verdict r =
     (if dr_cross_session_verification r then ''INVALID-SIGNATURE''
      else if dr_nonce_reuse r then ''STATE-CORRUPTION''
      else if \<not> dr_state_isolation r then ''STATE-CORRUPTION''
      else if \<not> dr_rollback_clean r then ''STATE-CORRUPTION''
      else if \<not> dr_key_store_unchanged r then ''STATE-CORRUPTION''
      else if dr_both_completed r \<and> \<not> dr_signatures_valid r then ''INVALID-SIGNATURE''
      else if dr_both_completed r then ''CLEAN-SIGN''
      else ''CLEAN-REJECT'')"

definition signal_dual :: "dual_result \<Rightarrow> ('pp, 'ps, 'rp, 'rs, unit) fuzz" where
  "signal_dual r =
     (if dr_cross_session_verification r then signal_oracle ''cross_session_verification''
      else if dr_nonce_reuse r then signal_oracle ''nonce_reuse''
      else if \<not> dr_state_isolation r then signal_oracle ''state_isolation''
      else if \<not> dr_rollback_clean r then signal_oracle ''rollback_clean''
      else if \<not> dr_key_store_unchanged r then signal_oracle ''key_store_changed''
      else if dr_both_completed r \<and> \<not> dr_signatures_valid r then signal_oracle ''signature_invalid''
      else ret ())"

definition LLVMFuzzerTestOneInput_dual :: "('c, 'l, 'pp, 'ps, 'rp, 'rs) linked \<Rightarrow> bytes option \<Rightarrow> u64
    \<Rightarrow> ('pp, 'ps, 'rp, 'rs, int) fuzz" where
  "LLVMFuzzerTestOneInput_dual lk data elapsed =
     (if \<not> in_door 1 data then andthen (recorded record_door_reject) (\<lambda>_. ret 0)
      else andthen get_state (\<lambda>p.
        case p_session p of
          None \<Rightarrow> fail_closed ''runtime_not_initialized''
        | Some se \<Rightarrow>
            andthen (run_schedule lk se (p_shard_seed p XOR fnv1a64 (the data)) (the data) elapsed) (\<lambda>r.
            if dr_harness_fault r then fail_closed ''harness_fault''
            else
              let cell = schedule_cell (dr_interleave_points r) (length (dr_schedule r));
                  applied = (0 < dr_advanced_past_injection r) in
              andthen (recorded (record_case (Some cell) applied (if applied then Some (dual_verdict r) else None))) (\<lambda>_.
              andthen (if applied then signal_dual r else ret ()) (\<lambda>_. ret 0)))))"

end
