(* ===== verification/Fuzzer_Runs.thy ===== *)
theory Fuzzer_Runs
  imports Fuzzers
begin

unbundle bit_operations_syntax

text \<open>
  What the libFuzzer programs of \<open>Fuzzers\<close> keep and show. The locale \<open>fuzz_target\<close> is the contract
  between libFuzzer and a program, interpreted for each of the three; then come the runs the decoded
  inputs ask for, the names the telemetry is given, and how an input ends. The last section has
  concrete processes.
\<close>

section \<open>What the programs keep\<close>

text \<open>
  The contract between libFuzzer and a program: a fresh process that initialisation returns from is
  ready, and every input that returns leaves it ready. \<open>feed\<close> is the loop over the inputs.
\<close>

fun feed :: "('i \<Rightarrow> ('e, 's, int) action) \<Rightarrow> 'i list \<Rightarrow> ('e, 's, unit) action" where
  "feed test [] = ret ()"
| "feed test (i # is) = andthen (test i) (\<lambda>_. feed test is)"

locale fuzz_target =
  fixes initialize :: "('e, 's, int) action"
    and test :: "'i \<Rightarrow> ('e, 's, int) action"
    and fresh :: "'s \<Rightarrow> bool"
    and is_ready :: "'s \<Rightarrow> bool"
  assumes initialize_ready: "hoare fresh initialize (\<lambda>x p. x = 0 \<and> is_ready p) (\<lambda>_. True)"
    and test_ready: "hoare is_ready (test i) (\<lambda>x p. x = 0 \<and> is_ready p) (\<lambda>_. True)"
begin

lemma feed_ready: "hoare is_ready (feed test is) (\<lambda>_. is_ready) (\<lambda>_. True)"
proof (induction "is")
  case Nil
  show ?case by (simp add: hoare_ret)
next
  case (Cons i "is")
  show ?case unfolding feed.simps
    by (rule hoare_andthen [where R = "\<lambda>x p. x = 0 \<and> is_ready p", OF test_ready])
      (rule hoare_weaken [OF Cons], auto)
qed

lemma campaign_ready: "hoare fresh (andthen initialize (\<lambda>_. feed test is)) (\<lambda>_. is_ready) (\<lambda>_. True)"
  by (rule hoare_andthen [OF initialize_ready]) (rule hoare_weaken [OF feed_ready], auto)

end

text \<open>
  A process is ready when the generator is installed or not as its program left it, its snapshot
  verified and has enough players, and its session is the one made from that snapshot.
\<close>

definition loaded :: "('c, 'l, 'pp, 'ps, 'rp, 'rs) linked \<Rightarrow> bool \<Rightarrow> nat \<Rightarrow> ('pp, 'ps, 'rp, 'rs) process \<Rightarrow> bool" where
  "loaded lk seeded n p \<longleftrightarrow> g_installed (p_rng p) = seeded \<and> verify_snapshot (lk_setup lk) (p_snap p) = Inr ()
     \<and> n \<le> length (s_players (p_snap p))"

definition session_of :: "snapshot \<Rightarrow> ('pp, 'ps, 'rp, 'rs) session \<Rightarrow> bool" where
  "session_of snap se \<longleftrightarrow> se_ok se \<and> se_snap se = snap \<and> se_ids se = player_ids snap"

definition ready :: "('c, 'l, 'pp, 'ps, 'rp, 'rs) linked \<Rightarrow> bool \<Rightarrow> nat \<Rightarrow> ('pp, 'ps, 'rp, 'rs) process \<Rightarrow> bool" where
  "ready lk seeded n p \<longleftrightarrow> loaded lk seeded n p \<and> (\<exists>se. p_session p = Some se \<and> session_of (p_snap p) se)"

named_theorems fuzz_rules "Hoare rules of the steps of a fuzzing process"

lemma hoare_any: "hoare P m (\<lambda>_ _. True) (\<lambda>_. True)"
  by (auto simp: hoare_def split: sum.split prod.split)

lemma hoare_fail [fuzz_rules]: "hoare P (fail_closed reason) Q (\<lambda>_. True)"
  by (auto simp: hoare_def fail_closed_def andthen_def say_def modify_def exit_with_def)

lemma hoare_signal [fuzz_rules]: "hoare P (signal_finding r) Q (\<lambda>_. True)" "hoare P (signal_oracle oracle) Q (\<lambda>_. True)"
  by (auto simp: hoare_def signal_finding_def signal_oracle_def andthen_def say_def modify_def exit_with_def)

lemma hoare_exits: "hoare P (exit_with e) Q (\<lambda>_. True)"
  by (simp add: hoare_def exit_with_def)

lemma hoare_getting: "(\<And>w0. P w0 \<Longrightarrow> hoare (\<lambda>w. w = w0) (f w0) Q E) \<Longrightarrow> hoare P (andthen get_state f) Q E"
  by (auto simp: hoare_def andthen_get)

lemma hoare_modifying: "hoare P m Q E \<Longrightarrow> (\<And>w. P' w \<Longrightarrow> P (f w)) \<Longrightarrow> hoare P' (andthen (modify f) (\<lambda>_. m)) Q E"
  by (auto simp: hoare_def andthen_def modify_def)

lemma hoare_case_option: "(x = None \<Longrightarrow> hoare P m Q E) \<Longrightarrow> (\<And>y. x = Some y \<Longrightarrow> hoare P (f y) Q E)
    \<Longrightarrow> hoare P (case x of None \<Rightarrow> m | Some y \<Rightarrow> f y) Q E"
  by (cases x) auto

lemma hoare_case_sum: "(\<And>y. x = Inl y \<Longrightarrow> hoare P (m y) Q E) \<Longrightarrow> (\<And>y. x = Inr y \<Longrightarrow> hoare P (f y) Q E)
    \<Longrightarrow> hoare P (case x of Inl y \<Rightarrow> m y | Inr y \<Rightarrow> f y) Q E"
  by (cases x) auto

text \<open>Telemetry and messages touch nothing that readiness is about.\<close>

definition untouched :: "(('pp, 'ps, 'rp, 'rs) process \<Rightarrow> bool) \<Rightarrow> bool" where
  "untouched P \<longleftrightarrow> (\<forall>p x y z. P (p\<lparr>p_telemetry := x, p_stderr := y, p_atexit := z\<rparr>) = P p)"

lemma untouched_fields:
  fixes p :: "('pp, 'ps, 'rp, 'rs) process"
  assumes "untouched P"
  shows "P (p\<lparr>p_telemetry := x\<rparr>) = P p" "P (p\<lparr>p_stderr := y\<rparr>) = P p" "P (p\<lparr>p_atexit := z\<rparr>) = P p"
proof -
  have "P (p\<lparr>p_telemetry := x, p_stderr := y, p_atexit := z\<rparr>) = P p" for p :: "('pp, 'ps, 'rp, 'rs) process" and x y z
    using assms by (simp add: untouched_def)
  from this [where p = p and x = x and y = "p_stderr p" and z = "p_atexit p"]
    this [where p = p and x = "p_telemetry p" and y = y and z = "p_atexit p"]
    this [where p = p and x = "p_telemetry p" and y = "p_stderr p" and z = z]
  show "P (p\<lparr>p_telemetry := x\<rparr>) = P p" "P (p\<lparr>p_stderr := y\<rparr>) = P p" "P (p\<lparr>p_atexit := z\<rparr>) = P p"
    by simp_all
qed

lemma hoare_say [fuzz_rules]: "untouched P \<Longrightarrow> hoare P (say line) (\<lambda>_. P) (\<lambda>_. True)"
  by (simp add: hoare_def say_def modify_def untouched_fields)

lemma hoare_telemetry [fuzz_rules]: "untouched P \<Longrightarrow> hoare P (telemetry m) (\<lambda>_. P) (\<lambda>_. True)"
  by (auto simp: hoare_def telemetry_def untouched_fields split: sum.split prod.split)

lemma hoare_recorded [fuzz_rules]: "untouched P \<Longrightarrow> hoare P (recorded m) (\<lambda>_. P) (\<lambda>_. True)"
  unfolding recorded_def
  by (rule hoare_andthen [OF hoare_telemetry]) (auto intro: hoare_if hoare_ret hoare_fail)

lemma hoare_start_telemetry [fuzz_rules]:
  "untouched P \<Longrightarrow> hoare P (start_telemetry getenv build fork) (\<lambda>_. P) (\<lambda>_. True)"
  unfolding start_telemetry_def Let_def
  by (intro hoare_if hoare_ret hoare_fail hoare_andthen [OF hoare_telemetry] hoare_modify) (auto simp: untouched_fields)

lemma untouched_loaded: "untouched (loaded lk b n)"
  by (simp add: untouched_def loaded_def)

lemma untouched_ready: "untouched (ready lk b n)"
  by (simp add: untouched_def loaded_def ready_def)

lemma rng_installed:
  "g_installed (reseed_g ossl seed g) = g_installed g"
  "rand_bytes_g ossl n g = (r, out, g') \<Longrightarrow> g_installed g' = g_installed g"
  by (auto simp: reseed_g_def rand_bytes_g_def split: prod.splits)

lemma install_installed: "install_deterministic_rand ossl g = (True, g') \<Longrightarrow> g_installed g'"
  by (auto simp: install_deterministic_rand_def split: if_splits)

lemma self_test_installed: "self_test ossl g = (ok, g') \<Longrightarrow> g_installed g \<Longrightarrow> g_installed g'"
  by (auto simp: self_test_def install_deterministic_rand_def Let_def rng_installed split: prod.splits if_splits)

lemma hoare_start_generator:
  "hoare P (start_generator lk) (\<lambda>_ p. g_installed (p_rng p) = True) (\<lambda>_. True)"
  unfolding start_generator_def
proof (rule hoare_getting)
  fix p assume "P p"
  obtain i g1 ok g2 where g: "install_deterministic_rand (lk_openssl lk) (p_rng p) = (i, g1)"
    "(if i then self_test (lk_openssl lk) g1 else (False, g1)) = (ok, g2)" by (metis surj_pair)
  have "ok \<Longrightarrow> g_installed g2" using g self_test_installed install_installed by (metis Pair_inject)
  then show "hoare (\<lambda>w. w = p) (let (inst, g) = install_deterministic_rand (lk_openssl lk) (p_rng p);
      (ok, g) = (if inst then self_test (lk_openssl lk) g else (False, g)) in
      andthen (modify (\<lambda>p. p\<lparr>p_rng := g\<rparr>)) (\<lambda>_. if ok then ret () else fail_closed ''deterministic_rng_unavailable''))
      (\<lambda>_ p. g_installed (p_rng p) = True) (\<lambda>_. True)"
    unfolding g Let_def prod.case
    by (intro hoare_modifying [where P = "\<lambda>p. p_rng p = g2"] hoare_if hoare_ret hoare_fail) auto
qed

lemma hoare_load_fixture:
  "hoare (\<lambda>p. g_installed (p_rng p) = b) (load_fixture lk getenv fs) (\<lambda>_. loaded lk b 2) (\<lambda>_. True)"
proof -
  have ok: "hoare (\<lambda>p. g_installed (p_rng p) = b) (andthen (modify (\<lambda>p. p\<lparr>p_snap := snap\<rparr>)) (\<lambda>_.
      if verify_snapshot (lk_setup lk) snap \<noteq> Inr () then fail_closed ''snapshot_invalid'' else ret ()))
      (\<lambda>_. loaded lk b 2) (\<lambda>_. True)" for snap
    using verify_snapshot_facts(6) [of "lk_setup lk" snap]
    by (intro hoare_modifying [where P = "\<lambda>p. g_installed (p_rng p) = b \<and> p_snap p = snap"] hoare_if hoare_ret hoare_fail)
      (auto simp: loaded_def)
  show ?thesis unfolding load_fixture_def
    by (intro hoare_case_option hoare_if hoare_fail hoare_case_sum ok)
qed

lemma hoare_probe_generator:
  assumes "\<And>stage. hoare (loaded lk b n) (announce stage) (\<lambda>_. loaded lk b n) (\<lambda>_. True)"
  shows "hoare (loaded lk b n) (probe_generator lk announce) (\<lambda>_. loaded lk b n) (\<lambda>_. True)"
  unfolding probe_generator_def
proof (rule hoare_getting)
  fix p assume p: "loaded lk b n p"
  obtain r g where "rng_is_effective (lk_setup lk) (lk_service lk) (p_snap p) (g_state (p_rng p)) = (r, g)" by fastforce
  moreover have "hoare (loaded lk b n) (case r of Inl _ \<Rightarrow> exit_with Undefined | Inr (Inl (Inl _)) \<Rightarrow> exit_with Uncaught
      | Inr (Inl (Inr (stage, _))) \<Rightarrow> andthen (announce stage) (\<lambda>_. fail_closed ''rng_not_effective'')
      | Inr (Inr _) \<Rightarrow> ret ()) (\<lambda>_. loaded lk b n) (\<lambda>_. True)"
    by (auto split: sum.split prod.split intro!: hoare_exits hoare_ret hoare_fail hoare_andthen [OF assms])
  ultimately show "hoare (\<lambda>w. w = p) (let (r, g) = rng_is_effective (lk_setup lk) (lk_service lk) (p_snap p) (g_state (p_rng p)) in
     andthen (modify (\<lambda>p. p\<lparr>p_rng := (p_rng p)\<lparr>g_state := g\<rparr>\<rparr>)) (\<lambda>_.
     case r of
       Inl _ \<Rightarrow> exit_with Undefined
     | Inr (Inl (Inl _)) \<Rightarrow> exit_with Uncaught
     | Inr (Inl (Inr (stage, _))) \<Rightarrow> andthen (announce stage) (\<lambda>_. fail_closed ''rng_not_effective'')
     | Inr (Inr _) \<Rightarrow> ret ())) (\<lambda>_. loaded lk b n) (\<lambda>_. True)"
    using p by (simp, intro hoare_modifying [where P = "loaded lk b n"]) (auto simp: loaded_def)
qed

lemma hoare_read_shard_seed: "hoare (loaded lk b n) (read_shard_seed getenv) (\<lambda>_. loaded lk b n) (\<lambda>_. True)"
  unfolding read_shard_seed_def by (auto split: option.split intro!: hoare_ret hoare_modify simp: loaded_def)

lemma session_new_of: "session_new lib snap key = (r, se) \<Longrightarrow> se_ok se \<Longrightarrow> session_of snap se"
  by (auto simp: session_new_def session_of_def Let_def split: prod.splits)

lemma hoare_open_session:
  assumes "new = session_new"
  shows "hoare (loaded lk b n) (open_session lk new reason) (\<lambda>_. ready lk b n) (\<lambda>_. True)"
  unfolding open_session_def assms
proof (rule hoare_getting)
  fix p assume p: "loaded lk b n p"
  obtain r se where se: "session_new (lk_setup lk) (p_snap p) ''opus-key'' = (r, se)" by fastforce
  have "hoare (\<lambda>w. w = p) (andthen (modify (\<lambda>p. p\<lparr>p_session := Some se\<rparr>)) (\<lambda>_. if se_ok se then ret () else fail_closed reason))
      (\<lambda>_. ready lk b n) (\<lambda>_. True)"
    using p session_new_of [OF se]
    by (intro hoare_modifying [where P = "\<lambda>w. w = p\<lparr>p_session := Some se\<rparr>"] hoare_if hoare_ret hoare_fail)
      (auto simp: ready_def loaded_def)
  then show "hoare (\<lambda>w. w = p) (case session_new (lk_setup lk) (p_snap p) ''opus-key'' of (Inl Out_of_bounds, _) \<Rightarrow> exit_with Undefined
     | (_, se) \<Rightarrow> andthen (modify (\<lambda>p. p\<lparr>p_session := Some se\<rparr>)) (\<lambda>_. if se_ok se then ret () else fail_closed reason))
      (\<lambda>_. ready lk b n) (\<lambda>_. True)"
    unfolding se by (auto split: sum.split fault.split intro: hoare_exits)
qed

lemma session_run_session: "session_run lib al sv cfg elapsed se g = (r, se', g') \<Longrightarrow> session_of snap se \<Longrightarrow> session_of snap se'"
  by (auto simp: session_run_def session_of_def Let_def split: option.splits prod.splits)

lemma dual_run_session: "dual_run lib al sv seed sch elapsed se g = (r, se', g') \<Longrightarrow> session_of snap se \<Longrightarrow> session_of snap se'"
  by (auto simp: dual_run_def session_of_def Let_def split: if_splits)

lemma hoare_running:
  assumes "ready lk b n p" "session_of (p_snap p) se'"
  shows "hoare (\<lambda>w. w = p) (andthen (modify (\<lambda>p. p\<lparr>p_session := Some se', p_rng := (p_rng p)\<lparr>g_state := g\<rparr>\<rparr>))
      (\<lambda>_. case r of None \<Rightarrow> exit_with Undefined | Some result \<Rightarrow> ret result)) (\<lambda>_. ready lk b n) (\<lambda>_. True)"
  using assms
  by (intro hoare_modifying [where P = "ready lk b n"] hoare_case_option hoare_exits hoare_ret) (auto simp: ready_def loaded_def)

lemma ready_session: "ready lk b n p \<Longrightarrow> p_session p = Some se \<Longrightarrow> session_of (p_snap p) se"
  by (auto simp: ready_def)

lemma hoare_run_input:
  "hoare (\<lambda>p. ready lk b n p \<and> p_session p = Some se) (run_input lk se cfg elapsed) (\<lambda>_. ready lk b n) (\<lambda>_. True)"
  unfolding run_input_def
proof (rule hoare_getting)
  fix p assume p: "ready lk b n p \<and> p_session p = Some se"
  obtain r se' g where r: "session_run (lk_setup lk) (lk_algebra lk) (lk_service lk) cfg elapsed se (g_state (p_rng p)) = (r, se', g)"
    using prod_cases3 by blast
  show "hoare (\<lambda>w. w = p) (let (r, se', g) = session_run (lk_setup lk) (lk_algebra lk) (lk_service lk) cfg elapsed se (g_state (p_rng p)) in
     andthen (modify (\<lambda>p. p\<lparr>p_session := Some se', p_rng := (p_rng p)\<lparr>g_state := g\<rparr>\<rparr>)) (\<lambda>_.
     case r of None \<Rightarrow> exit_with Undefined | Some result \<Rightarrow> ret result)) (\<lambda>_. ready lk b n) (\<lambda>_. True)"
    unfolding r Let_def prod.case using p by (intro hoare_running session_run_session [OF r]) (auto dest: ready_session)
qed

lemma hoare_run_schedule:
  "hoare (\<lambda>p. ready lk b n p \<and> p_session p = Some se) (run_schedule lk se seed schedule elapsed) (\<lambda>_. ready lk b n) (\<lambda>_. True)"
  unfolding run_schedule_def
proof (rule hoare_getting)
  fix p assume p: "ready lk b n p \<and> p_session p = Some se"
  obtain r se' g where r: "dual_run (lk_setup lk) (lk_algebra lk) (lk_service lk) seed schedule elapsed se (g_state (p_rng p)) = (r, se', g)"
    using prod_cases3 by blast
  show "hoare (\<lambda>w. w = p) (let (r, se', g) = dual_run (lk_setup lk) (lk_algebra lk) (lk_service lk) seed schedule elapsed se (g_state (p_rng p)) in
     andthen (modify (\<lambda>p. p\<lparr>p_session := Some se', p_rng := (p_rng p)\<lparr>g_state := g\<rparr>\<rparr>)) (\<lambda>_.
     case r of None \<Rightarrow> exit_with Undefined | Some result \<Rightarrow> ret result)) (\<lambda>_. ready lk b n) (\<lambda>_. True)"
    unfolding r Let_def prod.case using p by (intro hoare_running dual_run_session [OF r]) (auto dest: ready_session)
qed

lemmas hoare_runs = hoare_run_input hoare_run_schedule

text \<open>What follows a run returns zero or ends the process.\<close>

lemma hoare_conclude: "hoare P (conclude r) (\<lambda>x p. x = 0 \<and> P p) (\<lambda>_. True)"
  by (cases "rr_v r") (auto simp: conclude_def intro: hoare_ret hoare_fail hoare_signal)

lemma hoare_signal_dual: "hoare P (signal_dual r) (\<lambda>_. P) (\<lambda>_. True)"
  unfolding signal_dual_def by (intro hoare_if hoare_signal hoare_ret)

lemma hoare_then_zero: "hoare P m (\<lambda>_. P) (\<lambda>_. True) \<Longrightarrow> hoare P (andthen m (\<lambda>_. ret 0)) (\<lambda>x p. x = (0 :: int) \<and> P p) (\<lambda>_. True)"
  by (rule hoare_andthen) (auto intro: hoare_ret)

lemma hoare_before: "hoare P m (\<lambda>_. P) E \<Longrightarrow> (\<And>x. hoare P (f x) Q E) \<Longrightarrow> hoare P (andthen m f) Q E"
  by (rule hoare_andthen)

lemma hoare_session:
  assumes "ready lk b n p" "\<And>se. hoare (\<lambda>p. ready lk b n p \<and> p_session p = Some se) (m se) Q (\<lambda>_. True)"
  shows "hoare (\<lambda>w. w = p) (case p_session p of None \<Rightarrow> fail_closed reason | Some se \<Rightarrow> m se) Q (\<lambda>_. True)"
proof (rule hoare_case_option)
  fix se assume "p_session p = Some se"
  with assms(1) show "hoare (\<lambda>w. w = p) (m se) Q (\<lambda>_. True)" by (intro hoare_weaken [OF assms(2) [of se]]) auto
qed (rule hoare_fail)

lemma v1_ready: "hoare (ready lk b n) (LLVMFuzzerTestOneInput lk data elapsed) (\<lambda>x p. x = 0 \<and> ready lk b n p) (\<lambda>_. True)"
  unfolding LLVMFuzzerTestOneInput_def
  by (intro hoare_if hoare_ret hoare_getting hoare_session [where lk = lk and b = b and n = n] hoare_exits
      hoare_andthen [OF hoare_runs(1)] hoare_conclude conjI refl)

lemma v2_ready: "hoare (ready lk b n) (LLVMFuzzerTestOneInput_v2 lk data elapsed) (\<lambda>x p. x = 0 \<and> ready lk b n p) (\<lambda>_. True)"
  unfolding LLVMFuzzerTestOneInput_v2_def Let_def
  by (intro hoare_if hoare_then_zero hoare_recorded untouched_ready hoare_getting hoare_session [where lk = lk and b = b and n = n] hoare_fail
      hoare_andthen [OF hoare_runs(1)] hoare_before [OF hoare_recorded] hoare_before [OF hoare_say] hoare_conclude)

lemma dual_ready: "hoare (ready lk b n) (LLVMFuzzerTestOneInput_dual lk data elapsed) (\<lambda>x p. x = 0 \<and> ready lk b n p) (\<lambda>_. True)"
  unfolding LLVMFuzzerTestOneInput_dual_def Let_def
  by (intro hoare_if [where m = "fail_closed _"] hoare_if [where m = "andthen _ _"] hoare_then_zero hoare_recorded untouched_ready hoare_getting hoare_session [where lk = lk and b = b and n = n] hoare_fail
      hoare_andthen [OF hoare_runs(2)] hoare_before [OF hoare_recorded] hoare_if hoare_signal_dual hoare_ret)

lemma v1_initialize: "hoare P (LLVMFuzzerInitialize lk getenv fs) (\<lambda>x p. x = 0 \<and> ready lk True 2 p) (\<lambda>_. True)"
  unfolding LLVMFuzzerInitialize_def
  by (intro hoare_andthen [OF hoare_start_generator] hoare_andthen [OF hoare_load_fixture]
      hoare_before [OF hoare_probe_generator] hoare_getting hoare_if hoare_fail hoare_ret)
    (assumption, rule hoare_weaken [where P' = "loaded lk True 2", OF hoare_before [OF hoare_read_shard_seed
        hoare_andthen [OF hoare_open_session [OF refl]]]], auto intro: hoare_ret)

lemma v2_initialize: "hoare P (LLVMFuzzerInitialize_v2 lk getenv fs args) (\<lambda>x p. x = 0 \<and> ready lk True 3 p) (\<lambda>_. True)"
  unfolding LLVMFuzzerInitialize_v2_def
  by (intro hoare_andthen [OF hoare_start_generator] hoare_andthen [OF hoare_load_fixture]
      hoare_before [OF hoare_probe_generator] hoare_getting hoare_if hoare_fail hoare_say untouched_loaded)
    (rule hoare_weaken [where P' = "loaded lk True 3", OF hoare_before [OF hoare_read_shard_seed
        hoare_andthen [OF hoare_open_session [OF refl] hoare_then_zero [OF hoare_start_telemetry [OF untouched_ready]]]]],
     auto simp: loaded_def)

lemma dual_initialize:
  "hoare (\<lambda>p. g_installed (p_rng p) = b) (LLVMFuzzerInitialize_dual lk getenv fs args elapsed)
     (\<lambda>x p. x = 0 \<and> ready lk b 2 p) (\<lambda>_. True)"
proof -
  have "hoare (ready lk b 2) (dual_control lk elapsed) (\<lambda>_. ready lk b 2) (\<lambda>_. True)"
    unfolding dual_control_def
    by (intro hoare_getting hoare_session [where lk = lk and b = b and n = 2] hoare_andthen [OF hoare_runs(2)] hoare_if hoare_fail hoare_ret)
  then show ?thesis unfolding LLVMFuzzerInitialize_dual_def
    by (intro hoare_andthen [OF hoare_load_fixture] hoare_before [OF hoare_read_shard_seed]
        hoare_andthen [OF hoare_open_session [OF dual_session_new_eq]] hoare_before hoare_then_zero hoare_start_telemetry untouched_ready)
qed

interpretation v1: fuzz_target "LLVMFuzzerInitialize lk getenv fs" "\<lambda>(data, elapsed). LLVMFuzzerTestOneInput lk data elapsed"
    "\<lambda>_. True" "ready lk True 2" for lk getenv fs
  by unfold_locales (auto intro: v1_initialize v1_ready)

interpretation v2: fuzz_target "LLVMFuzzerInitialize_v2 lk getenv fs args" "\<lambda>(data, elapsed). LLVMFuzzerTestOneInput_v2 lk data elapsed"
    "\<lambda>_. True" "ready lk True 3" for lk getenv fs args
  by unfold_locales (auto intro: v2_initialize v2_ready)

interpretation dual: fuzz_target "LLVMFuzzerInitialize_dual lk getenv fs args elapsed"
    "\<lambda>(data, elapsed). LLVMFuzzerTestOneInput_dual lk data elapsed"
    "\<lambda>p. \<not> g_installed (p_rng p)" "ready lk False 2" for lk getenv fs args elapsed
  by unfold_locales (auto intro: hoare_weaken [OF dual_initialize [where b = False]] dual_ready)


section \<open>Inputs and the caller contract\<close>

lemma input_config_fields [simp]:
  "rc_signers_ids (input_config h sh signers sel op attacker data) = signers"
  "rc_malicious_ids (input_config h sh signers sel op attacker data) = [attacker]"
  "rc_blocks (input_config h sh signers sel op attacker data) = 1 + at_byte data 1 mod 5"
  by (simp_all add: input_config_def Let_def)

text \<open>One attacker among at least two distinct signers leaves an honest one.\<close>

lemma one_attacker_contract:
  assumes "run_signers ids cfg = participants" "rc_malicious_ids cfg = [participants ! (k mod length participants)]"
    and "rc_blocks cfg = 1 + j mod 5" "5 \<le> max_blocks"
    and "distinct participants" "set participants \<subseteq> set ids" "length participants = unat t" "2 \<le> length participants"
  shows "caller_contract max_blocks ids t cfg"
proof -
  let ?a = "participants ! (k mod length participants)"
  have ne: "participants \<noteq> []" using assms(8) by auto
  then have a: "?a \<in> set participants" using nth_mem by auto
  have "\<not> set participants \<subseteq> {?a}"
    using card_mono [of "{?a}" "set participants"] distinct_card [OF assms(5)] assms(8) by auto
  then have "\<exists>h\<in>set participants. h \<notin> set (rc_malicious_ids cfg)" using assms(2) by auto
  moreover have "rc_blocks cfg \<le> max_blocks" using assms(3,4) mod_less_divisor [of 5 j] by linarith
  ultimately show ?thesis
    using ne a assms by (auto simp: caller_contract_def Let_def)
qed

lemma ready_ids:
  assumes "ready lk b n p" "p_session p = Some se"
  shows "se_snap se = p_snap p" "se_ids se = player_ids (p_snap p)" "length (se_ids se) = length (s_players (p_snap p))"
    "2 \<le> unat (s_t (p_snap p))" "unat (s_t (p_snap p)) \<le> length (se_ids se)" "2 \<le> length (se_ids se)"
proof -
  have s: "session_of (p_snap p) se" and v: "verify_snapshot (lk_setup lk) (p_snap p) = Inr ()"
    using assms ready_session by (auto simp: ready_def loaded_def)
  from s show 1: "se_snap se = p_snap p" "se_ids se = player_ids (p_snap p)" by (simp_all add: session_of_def)
  then show 2: "length (se_ids se) = length (s_players (p_snap p))" by (simp add: player_ids_def)
  show 3: "2 \<le> unat (s_t (p_snap p))" using verify_snapshot_facts(4) [OF v] by (simp add: word_le_nat_alt)
  show 4: "unat (s_t (p_snap p)) \<le> length (se_ids se)" using verify_snapshot_facts(5) [OF v] 2 by simp
  show "2 \<le> length (se_ids se)" using 3 4 by simp
qed


text \<open>C36: on a snapshot whose threshold is below its number of players V1 tests nothing: every input
  returns zero and leaves the process exactly as it was, since the driver refuses the run, and V1 takes
  a run with no mutation applied for a harmless one before it looks at the harness fault.\<close>

theorem v1_below_threshold_does_nothing:
  assumes "ready lk b n p" and "unat (s_t (p_snap p)) < length (s_players (p_snap p))"
  shows "LLVMFuzzerTestOneInput lk data elapsed p = (Inr 0, p)"
proof (cases "in_door 8 data")
  case False
  then show ?thesis by (simp add: LLVMFuzzerTestOneInput_def ret_def)
next
  case True
  obtain se where se: "p_session p = Some se" using assms(1) by (auto simp: ready_def)
  note r = ready_ids [OF assms(1) se]
  let ?cfg = "decode_v1 (p_snap p) (p_shard_seed p) (the data)"
  have "\<not> session_contract (lk_service lk) ?cfg se"
    using assms(2) r(1,3) by (auto simp: caller_contract_def run_signers_def decode_v1_def Let_def)
  then obtain d where "session_run (lk_setup lk) (lk_algebra lk) (lk_service lk) ?cfg elapsed se (g_state (p_rng p))
      = (Some (run_result_default\<lparr>rr_v := HARNESS_FAULT, rr_detail := d\<rparr>), se, g_state (p_rng p))"
    by (rule session_run_guarded)
  then have "run_input lk se ?cfg elapsed p = (Inr (run_result_default\<lparr>rr_v := HARNESS_FAULT, rr_detail := d\<rparr>), p)"
    using se by (simp add: run_input_def andthen_get andthen_def [of "modify _"] modify_def ret_def)
  moreover have "s_players (p_snap p) \<noteq> []" using r(3,6) by auto
  ultimately show ?thesis
    using True se by (simp add: LLVMFuzzerTestOneInput_def andthen_get andthen_def [of "run_input _ _ _ _"] ret_def run_result_default_def)
qed

section \<open>Telemetry of the fuzzing programs\<close>

text \<open>C39: every record the programs make names a cell and a verdict of the telemetry's fixed
  vocabulary, whatever the input and the result, so none is refused for its name; and in V2 the cell
  says which field and which mutation the input selected.\<close>

theorem telemetry_names_are_known:
  "cell_key (select_v2 data) (op_v2 (select_v2 data) data) \<in> set CELLS
   \<and> (cell_key (select_v2 data) (op_v2 (select_v2 data) data) = cell_key (select_v2 data') (op_v2 (select_v2 data') data'))
      = (select_v2 data = select_v2 data' \<and> op_v2 (select_v2 data) data = op_v2 (select_v2 data') data')
   \<and> verdict_name v \<in> set VERDICTS \<and> schedule_cell crossings steps \<in> set CELLS \<and> dual_verdict r \<in> set VERDICTS"
proof -
  have sel: "select_v2 d \<in> set FIELDS_V2" for d
    unfolding select_v2_def by (rule nth_mem) (simp add: FIELDS_V2_def)
  have ops: "byte_op d \<in> {FLIP_BIT, ZERO, TRUNCATE}" for d
    unfolding byte_op_def using nth_mem [of "at_byte d 3 mod 3" "[FLIP_BIT, ZERO, TRUNCATE]"] by auto
  let ?pairs = "[(FIELDS_V2 ! 0, FLIP_BIT), (FIELDS_V2 ! 0, ZERO), (FIELDS_V2 ! 0, TRUNCATE), (FIELDS_V2 ! 1, EXTRA_MAP_KEY)]"
  have c: "(select_v2 d, op_v2 (select_v2 d) d) \<in> set ?pairs" for d
    using sel [of d] ops [of d] by (auto simp: FIELDS_V2_def op_v2_def)
  have inj: "list_all (\<lambda>x. cell_key (fst x) (snd x) \<in> set CELLS
      \<and> list_all (\<lambda>y. (cell_key (fst x) (snd x) = cell_key (fst y) (snd y)) = (x = y)) ?pairs) ?pairs"
    by code_simp
  have keys: "cell_key (fst x) (snd x) \<in> set CELLS \<and> (cell_key (fst x) (snd x) = cell_key (fst y) (snd y)) = (x = y)"
    if "x \<in> set ?pairs" "y \<in> set ?pairs" for x y
    using inj that unfolding list_all_iff by blast
  have "verdict_name v \<in> set VERDICTS" by (cases v) (simp_all add: VERDICTS_def)
  moreover have "schedule_cell crossings steps \<in> set CELLS" by (simp add: schedule_cell_def CELLS_def)
  moreover have "dual_verdict r \<in> set VERDICTS" by (simp add: dual_verdict_def VERDICTS_def)
  ultimately show ?thesis using keys [OF c [of data] c [of data']] by simp
qed

text \<open>How the steps of an input end.\<close>

lemma andthen_ends: "andthen m f p = (Inl e, p') \<longleftrightarrow>
    m p = (Inl e, p') \<or> (\<exists>x q. m p = (Inr x, q) \<and> f x q = (Inl e, p'))"
  by (auto simp: andthen_def split: prod.splits sum.splits)

lemma andthen_returns: "andthen m f p = (Inr y, p') \<longleftrightarrow> (\<exists>x q. m p = (Inr x, q) \<and> f x q = (Inr y, p'))"
  by (auto simp: andthen_def split: prod.splits sum.splits)

lemma say_eq [simp]: "say line p = (Inr (), p\<lparr>p_stderr := p_stderr p @ [line]\<rparr>)"
  by (simp add: say_def modify_def)

lemma fail_closed_eq [simp]:
  "fail_closed reason p = (Inl (Exits 86), p\<lparr>p_stderr := p_stderr p @ [''FIREBLOCKS_HARNESS_FAIL_CLOSED reason='' @ reason]\<rparr>)"
  by (simp add: fail_closed_def andthen_def exit_with_def)

lemma signal_oracle_eq [simp]:
  "signal_oracle oracle p = (Inl Aborts, p\<lparr>p_stderr := p_stderr p @ [''FIREBLOCKS_HIGH_SIGNAL oracle='' @ oracle]\<rparr>)"
  by (simp add: signal_oracle_def andthen_def exit_with_def)

lemma fst_signal_finding [simp]: "signal_finding r p = (Inr x, q) \<longleftrightarrow> False"
  by (simp add: signal_finding_def andthen_def exit_with_def)

lemma recorded_aborts [simp]: "recorded m p = (Inl Aborts, p') \<longleftrightarrow> False"
  by (auto simp: recorded_def andthen_ends telemetry_def ret_def split: sum.splits prod.splits if_splits)

lemma recorded_returns: "recorded m p = (Inr u, p') \<longleftrightarrow> (\<exists>w. m (p_telemetry p) = (Inr True, w) \<and> p' = p\<lparr>p_telemetry := w\<rparr>)"
  by (auto simp: recorded_def andthen_returns telemetry_def ret_def split: sum.splits prod.splits if_splits)

lemma run_input_returns: "run_input lk se cfg elapsed p = (Inr r, p') \<longleftrightarrow> (\<exists>se' g.
    session_run (lk_setup lk) (lk_algebra lk) (lk_service lk) cfg elapsed se (g_state (p_rng p)) = (Some r, se', g)
    \<and> p' = p\<lparr>p_session := Some se', p_rng := (p_rng p)\<lparr>g_state := g\<rparr>\<rparr>)"
  by (auto simp: run_input_def andthen_get andthen_def [of "modify _"] modify_def ret_def exit_with_def Let_def
      split: prod.splits option.splits)

lemma run_input_ends: "run_input lk se cfg elapsed p = (Inl e, p') \<Longrightarrow> e = Undefined"
  by (auto simp: run_input_def andthen_get andthen_def [of "modify _"] modify_def ret_def exit_with_def Let_def
      split: prod.splits option.splits)

lemma run_schedule_returns: "run_schedule lk se seed sch elapsed p = (Inr r, p') \<longleftrightarrow> (\<exists>se' g.
    dual_run (lk_setup lk) (lk_algebra lk) (lk_service lk) seed sch elapsed se (g_state (p_rng p)) = (Some r, se', g)
    \<and> p' = p\<lparr>p_session := Some se', p_rng := (p_rng p)\<lparr>g_state := g\<rparr>\<rparr>)"
  by (auto simp: run_schedule_def andthen_get andthen_def [of "modify _"] modify_def ret_def exit_with_def Let_def
      split: prod.splits option.splits)

lemma run_schedule_ends: "run_schedule lk se seed sch elapsed p = (Inl e, p') \<Longrightarrow> e = Undefined"
  by (auto simp: run_schedule_def andthen_get andthen_def [of "modify _"] modify_def ret_def exit_with_def Let_def
      split: prod.splits option.splits)

lemma run_telemetry:
  "run_input lk se cfg elapsed p = (Inr r, q) \<Longrightarrow> p_telemetry q = p_telemetry p"
  "run_schedule lk se seed sch elapsed p = (Inr r', q) \<Longrightarrow> p_telemetry q = p_telemetry p"
  by (auto simp: run_input_returns run_schedule_returns)

lemma fst_andthen_cases:
  assumes "\<And>e q. m p = (Inl e, q) \<Longrightarrow> Inl e \<in> X" "\<And>x q. m p = (Inr x, q) \<Longrightarrow> fst (f x q) \<in> X"
  shows "fst (andthen m f p) \<in> X"
  using assms by (auto simp: andthen_def split: prod.split sum.split)

text \<open>Without configured telemetry nothing is recorded.\<close>

lemma unconfigured_refuses:
  assumes "\<not> ts_configured (tw_s w)"
  shows "record_door_reject w = (Inr False, w)" "record_case cell applied verdict w = (Inr False, w)"
  using assms
  by (simp_all add: record_door_reject_def record_case_def claim_job_def andthen_def [of "andthen _ _"] andthen_get ret_def split: option.split)

lemma recorded_unconfigured:
  assumes "\<not> ts_configured (tw_s (p_telemetry p))"
  shows "fst (recorded record_door_reject p) = Inl (Exits 86)" "fst (recorded (record_case cell applied verdict) p) = Inl (Exits 86)"
  using assms by (simp_all add: recorded_def andthen_def telemetry_def unconfigured_refuses)

lemma fst_stop: "fst (m p) = Inl e \<Longrightarrow> fst (andthen m f p) = Inl e"
  by (cases "m p") (auto simp: andthen_def)

lemma recorded_stops:
  assumes "\<not> ts_configured (tw_s (p_telemetry p))"
  shows "fst (andthen (recorded record_door_reject) f p) = Inl (Exits 86)"
    "fst (andthen (recorded (record_case cell applied verdict)) f p) = Inl (Exits 86)"
  by (rule fst_stop, rule recorded_unconfigured [OF assms])+

text \<open>C40: V2 and the dual-session program cannot run without telemetry, although their initialisation
  treats it as optional: while it is not configured no input returns, whatever its length and whatever
  the process; each ends the process with status 86, or in a run the library left undefined.\<close>

theorem unconfigured_telemetry_ends_every_input:
  assumes "\<not> ts_configured (tw_s (p_telemetry p))"
  shows "fst (LLVMFuzzerTestOneInput_v2 lk data elapsed p) \<in> {Inl (Exits 86), Inl Undefined}
    \<and> fst (LLVMFuzzerTestOneInput_dual lk data elapsed p) \<in> {Inl (Exits 86), Inl Undefined}"
proof -
  define X :: "(ending + int) set" where "X = {Inl (Exits 86), Inl Undefined}"
  have X: "Inl (Exits 86) \<in> X" "Inl Undefined \<in> X" by (simp_all add: X_def)
  have run: "fst (andthen (run_input lk se cfg elapsed) f p) \<in> X"
    if "\<And>r q. p_telemetry q = p_telemetry p \<Longrightarrow> fst (f r q) \<in> X" for se cfg f
    by (rule fst_andthen_cases) (use that run_telemetry(1) run_input_ends X in blast)+
  have sched: "fst (andthen (run_schedule lk se seed sch elapsed) f p) \<in> X"
    if "\<And>r q. p_telemetry q = p_telemetry p \<Longrightarrow> fst (f r q) \<in> X" for se seed sch f
    by (rule fst_andthen_cases) (use that run_telemetry(2) run_schedule_ends X in blast)+
  have "fst (LLVMFuzzerTestOneInput_v2 lk data elapsed p) \<in> X"
    unfolding LLVMFuzzerTestOneInput_v2_def Let_def
    using assms by (auto simp: recorded_stops andthen_get X split: option.split intro!: run)
  moreover have "fst (LLVMFuzzerTestOneInput_dual lk data elapsed p) \<in> X"
    unfolding LLVMFuzzerTestOneInput_dual_def Let_def
    using assms by (auto simp: recorded_stops andthen_get X split: option.split intro!: sched)
  ultimately show ?thesis unfolding X_def ..
qed

text \<open>C11: V2 aborts only for a finding, and accounts for it first: when an input ends in \<^verbatim>\<open>abort\<close>, it
  was decoded to a run that applied a mutation and was judged an invalid signature, a corrupted state,
  a crash or a timeout, and by then the telemetry has counted one more execution, one more applied case
  of the cell the input selected, and one more of that verdict.\<close>

theorem v2_abort_is_accounted:
  assumes "LLVMFuzzerTestOneInput_v2 lk data elapsed p = (Inl Aborts, p')"
  shows "\<exists>bs se result se' g. data = Some bs \<and> p_session p = Some se
    \<and> session_run (lk_setup lk) (lk_algebra lk) (lk_service lk) (decode_v2 (se_ids se) (s_t (p_snap p)) (p_shard_seed p) bs)
        elapsed se (g_state (p_rng p)) = (Some result, se', g)
    \<and> 0 < rr_mutations_applied result \<and> rr_v result \<in> {INVALID_SIGNATURE, STATE_CORRUPTION, CRASH, TIMEOUT}
    \<and> (let s = tw_s (p_telemetry p); s' = tw_s (p_telemetry p') in
        ts_execs s' = ts_execs s + 1 \<and> ts_verdicts s' = bump (verdict_name (rr_v result)) (ts_verdicts s)
        \<and> ts_applied s' = bump (cell_key (select_v2 bs) (op_v2 (select_v2 bs) bs)) (ts_applied s))"
proof -
  have door: "in_door 8 data"
    using assms by (auto simp: LLVMFuzzerTestOneInput_v2_def andthen_ends ret_def split: if_splits)
  then obtain bs where bs: "data = Some bs" by (auto simp: in_door_def split: option.splits)
  obtain se where se: "p_session p = Some se"
    using assms door by (auto simp: LLVMFuzzerTestOneInput_v2_def andthen_get split: option.splits)
  let ?cell = "cell_key (select_v2 bs) (op_v2 (select_v2 bs) bs)"
  obtain result q where r: "run_input lk se (decode_v2 (se_ids se) (s_t (p_snap p)) (p_shard_seed p) bs) elapsed p = (Inr result, q)"
    and k: "(if rr_v result = HARNESS_FAULT then fail_closed ''harness_fault''
       else if rr_mutations_applied result = 0 then andthen (recorded (record_case (Some ?cell) False None)) (\<lambda>_. ret 0)
       else andthen (recorded (record_case (Some ?cell) True (Some (verdict_name (rr_v result))))) (\<lambda>_.
         andthen (say (''FIREBLOCKS_ROUND verdict='' @ verdict_name (rr_v result) @ '' round='' @ to_string_int (rr_failed_round result)))
           (\<lambda>_. conclude result))) q = (Inl Aborts, p')"
    using assms door bs se
    by (auto simp: LLVMFuzzerTestOneInput_v2_def andthen_get andthen_ends [of "run_input _ _ _ _"] Let_def split: if_splits
        dest: run_input_ends)
  have applied: "0 < rr_mutations_applied result"
    using k by (auto simp: andthen_ends ret_def split: if_splits)
  obtain w where rec: "record_case (Some ?cell) True (Some (verdict_name (rr_v result))) (p_telemetry q) = (Inr True, w)"
    and c: "conclude result (q\<lparr>p_telemetry := w, p_stderr := p_stderr q @ [''FIREBLOCKS_ROUND verdict='' @ verdict_name (rr_v result)
        @ '' round='' @ to_string_int (rr_failed_round result)]\<rparr>) = (Inl Aborts, p')"
    using k applied by (auto simp: andthen_ends recorded_returns split: if_splits)
  have v: "rr_v result \<in> {INVALID_SIGNATURE, STATE_CORRUPTION, CRASH, TIMEOUT}"
    using c by (cases "rr_v result") (auto simp: conclude_def ret_def)
  have w: "p_telemetry p' = w"
    using c by (cases "rr_v result") (auto simp: conclude_def ret_def signal_finding_def andthen_def exit_with_def)
  have f: "ts_execs (unclaimed x) = ts_execs x" "ts_applied (unclaimed x) = ts_applied x" "ts_verdicts (unclaimed x) = ts_verdicts x" for x
    by (simp_all add: unclaimed_def)
  have "p_telemetry q = p_telemetry p" using r by (auto simp: run_input_returns)
  with rec obtain s where s: "same_counters s (tw_s (p_telemetry p))"
    "tw_s w = s\<lparr>ts_execs := ts_execs s + 1, ts_decoded := ts_decoded s + 1, ts_selected := bump ?cell (ts_selected s),
       ts_applied := bump ?cell (ts_applied s), ts_verdicts := bump (verdict_name (rr_v result)) (ts_verdicts s)\<rparr>"
    by (auto elim: record_case_True)
  from s(1) have "ts_execs s = ts_execs (tw_s (p_telemetry p))" "ts_applied s = ts_applied (tw_s (p_telemetry p))"
    "ts_verdicts s = ts_verdicts (tw_s (p_telemetry p))"
    unfolding same_counters_def by (metis f)+
  with s(2) w bs se applied v r show ?thesis by (auto simp: run_input_returns Let_def)
qed

lemma signal_dual_ends:
  "fst (signal_dual r p) = (if any_finding r then Inl Aborts else Inr ())" "p_telemetry (snd (signal_dual r p)) = p_telemetry p"
  by (auto simp: signal_dual_def any_finding_def ret_def)


section \<open>Concrete processes\<close>

text \<open>
  Processes on the fixture of three players with threshold two, with telemetry configured in
  directories of its own. The shard seed makes the digest of the input five.
\<close>

definition toy_linked :: "('l, nat, nat, nat, nat) cmp_service \<Rightarrow> (unit, 'l, nat, nat, nat, nat) linked" where
  "toy_linked sv = \<lparr>lk_openssl = sample_openssl, lk_setup = toy_lib, lk_algebra = toy_algebra, lk_service = sv\<rparr>"

definition toy_process :: "bytes \<Rightarrow> (nat, nat, nat, nat) process" where
  "toy_process bs = \<lparr>p_rng = \<lparr>g_state = g_state_init, g_installed = True\<rparr>, p_snap = toy_fixture,
     p_session = Some toy_session, p_shard_seed = fnv1a64 bs XOR 5,
     p_telemetry = snd (configure (Some ''d'') (Some ''c'') (Some ''b'') None None 1 toy_tworld),
     p_atexit = True, p_stderr = []\<rparr>"

lemma toy_ready: "ready (toy_linked sv) True 3 (toy_process bs)"
  using toy_fixture_verifies
  by (simp add: ready_def loaded_def session_of_def toy_process_def toy_linked_def toy_session_def toy_fixture_def player_ids_def)

lemma toy_process_simps [simp]:
  "p_session (toy_process bs) = Some toy_session" "p_snap (toy_process bs) = toy_fixture"
  "lk_service (toy_linked sv) = sv" "lk_setup (toy_linked sv) = toy_lib" "lk_algebra (toy_linked sv) = toy_algebra"
  "g_state (p_rng (toy_process bs)) = g_state_init" "p_shard_seed (toy_process bs) = fnv1a64 bs XOR 5"
  "p_telemetry (toy_process bs) = snd (configure (Some ''d'') (Some ''c'') (Some ''b'') None None 1 toy_tworld)"
  by (simp_all add: toy_process_def toy_linked_def)

lemma toy_sizes: "distinct (se_ids toy_session)" "5 \<le> sv_MAX_BLOCKS_TO_SIGN toy_service" "unat (s_t toy_fixture) = 2"
    "length (s_players toy_fixture) = 3" "length (se_ids toy_session) = 3"
  by code_simp+


theorem v1_below_threshold_does_nothing_witness:
  "LLVMFuzzerTestOneInput (toy_linked toy_service) (Some [1, 2, 3, 4, 5, 6, 7, 8]) 9 (toy_process []) = (Inr 0, toy_process [])"
  using v1_below_threshold_does_nothing [OF toy_ready, of "[]" toy_service "Some [1, 2, 3, 4, 5, 6, 7, 8]" 9] toy_sizes by simp

theorem unconfigured_telemetry_ends_every_input_witness:
  "fst (LLVMFuzzerTestOneInput_v2 (toy_linked toy_service) None 9 ((toy_process [])\<lparr>p_telemetry := toy_tworld\<rparr>))
     \<in> {Inl (Exits 86), Inl Undefined}"
  using unconfigured_telemetry_ends_every_input [of "(toy_process [])\<lparr>p_telemetry := toy_tworld\<rparr>" "toy_linked toy_service" None 9]
  by (simp add: toy_tworld_def tstate_init_def)

text \<open>A library that signs a tampered message and keeps its record: V2 aborts on it.\<close>

definition lax_service :: "(unit, nat, nat, nat, nat) cmp_service" where
  "lax_service = toy_service\<lparr>
     sv_mta_response := (\<lambda>txid inp v. toy_with_record txid (\<lambda>md. Inr sample_responses)),
     sv_get_cmp_signature := (\<lambda>txid inp e. (Inr [], e))\<rparr>"

text \<open>The run of an input whose digest is given, instead of computed from the bytes.\<close>

definition config_with_digest :: "string \<Rightarrow> u64 \<Rightarrow> u64 list \<Rightarrow> field_spec \<Rightarrow> wire_op \<Rightarrow> u64 \<Rightarrow> bytes \<Rightarrow> run_config" where
  "config_with_digest txid_head digest signers selected operation attacker data =
     (let blocks = 1 + at_byte data 1 mod 5 in
      run_config_default\<lparr>rc_seed := digest, rc_txid := txid_head @ to_string_u64 digest, rc_blocks := blocks,
        rc_metadata_json := (if data ! 4 AND 1 \<noteq> 0 then ''positive_r'' else []), rc_malicious_ids := [attacker],
        rc_signers_ids := signers, rc_timeout_ms := 30000,
        rc_mutations := [input_mutation selected operation attacker blocks data]\<rparr>)"

lemma input_config_digest:
  "input_config h (fnv1a64 bs XOR 5) signers sel op attacker bs = config_with_digest h 5 signers sel op attacker bs"
proof -
  have "fnv1a64 bs XOR (fnv1a64 bs XOR 5) = 5" by (simp add: xor.assoc [symmetric])
  then show ?thesis by (simp add: input_config_def config_with_digest_def Let_def)
qed

definition toy_bytes :: bytes where
  "toy_bytes = [0, 0, 0, 0, 0, 0, 0, 0]"

lemma toy_decoded: "decode_v2 [1, 2, 3] 2 (fnv1a64 toy_bytes XOR 5) toy_bytes
    = config_with_digest ''fz2-'' 5 [1, 2] (FIELDS_V2 ! 0) FLIP_BIT 1 toy_bytes"
proof -
  have "signers_v2 [1, 2, 3] 2 = [1, 2]" "at_byte toy_bytes 2 = 0" "select_v2 toy_bytes = FIELDS_V2 ! 0"
    "op_v2 (FIELDS_V2 ! 0) toy_bytes = FLIP_BIT" by code_simp+
  then show ?thesis by (simp add: decode_v2_def input_config_digest Let_def)
qed

lemma lax_run: "map_option (\<lambda>r. (rr_v r, rr_mutations_applied r)) (fst (session_run toy_lib toy_algebra lax_service
    (config_with_digest ''fz2-'' 5 [1, 2] (FIELDS_V2 ! 0) FLIP_BIT 1 toy_bytes) 9 toy_session g_state_init)) = Some (STATE_CORRUPTION, 1)"
  by code_simp

lemma toy_recorded: "fst (record_case (Some (cell_key (FIELDS_V2 ! 0) FLIP_BIT)) True (Some (verdict_name STATE_CORRUPTION))
    (snd (configure (Some ''d'') (Some ''c'') (Some ''b'') None None 1 toy_tworld))) = Inr True"
  by code_simp

lemma toy_aborts: "fst (LLVMFuzzerTestOneInput_v2 (toy_linked lax_service) (Some toy_bytes) 9 (toy_process toy_bytes)) = Inl Aborts"
proof -
  have s: "select_v2 toy_bytes = FIELDS_V2 ! 0" "op_v2 (FIELDS_V2 ! 0) toy_bytes = FLIP_BIT" "in_door 8 (Some toy_bytes)"
    "se_ids toy_session = [1, 2, 3]" "s_t toy_fixture = 2" by code_simp+
  obtain r se' g where r: "session_run toy_lib toy_algebra lax_service
      (config_with_digest ''fz2-'' 5 [1, 2] (FIELDS_V2 ! 0) FLIP_BIT 1 toy_bytes) 9 toy_session g_state_init = (Some r, se', g)"
    "rr_v r = STATE_CORRUPTION" "rr_mutations_applied r = 1"
    using lax_run by (cases "session_run toy_lib toy_algebra lax_service
      (config_with_digest ''fz2-'' 5 [1, 2] (FIELDS_V2 ! 0) FLIP_BIT 1 toy_bytes) 9 toy_session g_state_init") auto
  define q where "q = (toy_process toy_bytes)\<lparr>p_session := Some se',
    p_rng := (p_rng (toy_process toy_bytes))\<lparr>g_state := g\<rparr>\<rparr>"
  have run: "run_input (toy_linked lax_service) toy_session (decode_v2 [1, 2, 3] 2 (fnv1a64 toy_bytes XOR 5) toy_bytes) 9
      (toy_process toy_bytes) = (Inr r, q)"
    by (auto simp: run_input_returns toy_decoded r(1) q_def)
  obtain w where "record_case (Some (cell_key (FIELDS_V2 ! 0) FLIP_BIT)) True (Some (verdict_name STATE_CORRUPTION))
      (p_telemetry q) = (Inr True, w)"
    using toy_recorded by (auto simp: q_def fst_conv prod_eq_iff intro: prod.expand)
  then have rec: "recorded (record_case (Some (cell_key (FIELDS_V2 ! 0) FLIP_BIT)) True (Some (verdict_name STATE_CORRUPTION))) q
      = (Inr (), q\<lparr>p_telemetry := w\<rparr>)" by (simp add: recorded_returns)
  show ?thesis
    using s run rec r(2,3)
    by (simp add: LLVMFuzzerTestOneInput_v2_def andthen_get andthen_def [of "run_input _ _ _ _"] andthen_def [of "recorded _"]
        andthen_def [of "say _"] conclude_def signal_finding_def exit_with_def Let_def)
qed

theorem v2_abort_is_accounted_witness:
  "\<exists>p'. LLVMFuzzerTestOneInput_v2 (toy_linked lax_service) (Some toy_bytes) 9 (toy_process toy_bytes) = (Inl Aborts, p')
     \<and> ts_execs (tw_s (p_telemetry p')) = ts_execs (tw_s (p_telemetry (toy_process toy_bytes))) + 1"
proof -
  obtain p' where p': "LLVMFuzzerTestOneInput_v2 (toy_linked lax_service) (Some toy_bytes) 9 (toy_process toy_bytes) = (Inl Aborts, p')"
    using toy_aborts by (metis prod.collapse)
  from v2_abort_is_accounted [OF this] p' show ?thesis unfolding Let_def by blast
qed

text \<open>
  A library that refuses to start either ceremony and, asked to start B, tampers with the record of A:
  no step advances, and the dual-session program drops the finding.
\<close>

definition thief_service :: "(unit, nat, nat, nat, nat) cmp_service" where
  "thief_service = mute_service\<lparr>sv_start_signing := (\<lambda>key txid alg data meta strs ids e.
     (toy_throw, if txid = ''opus-dual-tx-b''
        then e\<lparr>pe_store := snd (store_cmp_signing_data ''opus-dual-tx-a'' sample_metadata (pe_store e))\<rparr> else e))\<rparr>"

definition run_summary :: "('l, 'pp, 'ps, 'rp, 'rs) dual_state \<Rightarrow> ceremony_state \<times> ceremony_state \<times> bool \<times> nat \<times> nat \<times> nat" where
  "run_summary s = (ce_state (ds_a s), ce_state (ds_b s), ds_others_unchanged s, ds_advanced s, ds_interleave_points s,
     length (ds_trace s))"

lemma thief_summary: "run_summary (dual_loop (pad 32) thief_service max_steps (dual_start toy_lib thief_service toy_session 5 [0] g_state_init))
    = (REJECTED, REJECTED, False, 0, 1, 2)"
  by code_simp

lemma thief_run:
  obtains r se' g where "dual_run toy_lib toy_algebra thief_service 5 [0] 9 toy_session g_state_init = (Some r, se', g)"
    "any_finding r" "dr_advanced_past_injection r = 0" "\<not> dr_harness_fault r" "dr_interleave_points r = 1" "length (dr_schedule r) = 2"
proof -
  let ?s = "dual_loop (c_sha256 toy_lib) thief_service max_steps (dual_start toy_lib thief_service toy_session 5 [0] g_state_init)"
  have "c_sha256 toy_lib = pad 32" by (simp add: toy_lib_def)
  with thief_summary have s: "ce_state (ds_a ?s) = REJECTED" "ce_state (ds_b ?s) = REJECTED" "\<not> ds_others_unchanged ?s"
    "ds_advanced ?s = 0" "ds_interleave_points ?s = 1" "length (ds_trace ?s) = 2"
    by (simp_all add: run_summary_def)
  obtain ob where ob: "dual_observe toy_lib toy_algebra toy_session ?s = Some ob" "\<not> ob_other_records_unchanged ob" "\<not> ob_harness_fault ob"
    "\<not> ob_both_completed ob"
    using s(1-3) by (simp add: dual_observe_def Let_def)
  show ?thesis
    using dual_run_eq [OF mute_contract(1), of toy_lib toy_algebra thief_service 5 "[0]" 9 g_state_init] ob s
    by (intro that [of "dual_conclude ?s 9 ob"])
      (auto simp: Let_def dual_conclude_def any_finding_def evaluate_dual_oracles_def)
qed

lemma thief_recorded: "fst (record_case (Some ''dual.schedule|alternating'') False None
    (snd (configure (Some ''d'') (Some ''c'') (Some ''b'') None None 1 toy_tworld))) = Inr True"
  by code_simp


end
