(* ===== verification/Tools.thy ===== *)
theory Tools
  imports Fuzzers
begin

unbundle bit_operations_syntax

text \<open>
  The command-line programs: the snapshot generator \<^verbatim>\<open>tools/mk_snapshot.cpp\<close>, the bounded smoke test
  \<^verbatim>\<open>src/smoke.cpp\<close> and the case runner \<^verbatim>\<open>src/main.cpp\<close>, all under \<^verbatim>\<open>src/harness/cmp_ecdsa_online\<close>.
  A \<^verbatim>\<open>main\<close> is an action on the state of its process: the generator, the files, the durations the
  next runs will measure, and the lines printed. It returns zero or ends with the status it returns.
  \<^verbatim>\<open>argv\<close> is a list with the name of the program first.
\<close>

section \<open>The process\<close>

record tool =
  t_rng :: rng_globals
  t_files :: file_system
  t_clock :: "u64 list"
  t_out :: "string list"

type_synonym 'a tool_action = "(ending, tool, 'a) action"

definition print :: "string \<Rightarrow> unit tool_action" where
  "print line = modify (\<lambda>w. w\<lparr>t_out := t_out w @ [line]\<rparr>)"

text \<open>A message and \<^verbatim>\<open>return code\<close>.\<close>

definition quit :: "int \<Rightarrow> string \<Rightarrow> 'a tool_action" where
  "quit code line = andthen (print line) (\<lambda>_. exit_with (Exits code))"

fun snapshot_error_text :: "snapshot_error \<Rightarrow> string" where
  "snapshot_error_text (CannotOpenWriting path) = ''cannot open '' @ path @ '' for writing''"
| "snapshot_error_text (WriteFailed path) = ''write failed for '' @ path"
| "snapshot_error_text (CannotOpenReading path) = ''cannot open '' @ path @ '' for reading''"
| "snapshot_error_text BadMagic = ''bad snapshot magic''"
| "snapshot_error_text (UnsupportedFormat v) = ''unsupported snapshot format '' @ dec_of_nat (unat v)"
| "snapshot_error_text TruncatedHeader = ''truncated snapshot header''"
| "snapshot_error_text TruncatedPlayer = ''truncated snapshot player record''"
| "snapshot_error_text TrailingBytes = ''trailing bytes in snapshot''"

definition put_generator :: "drbg_state \<Rightarrow> unit tool_action" where
  "put_generator g = modify (\<lambda>w. w\<lparr>t_rng := (t_rng w)\<lparr>g_state := g\<rparr>\<rparr>)"

definition install_generator :: "openssl \<Rightarrow> bool tool_action" where
  "install_generator ossl = andthen get_state (\<lambda>w.
     let (ok, g) = install_deterministic_rand ossl (t_rng w) in
     andthen (modify (\<lambda>w. w\<lparr>t_rng := g\<rparr>)) (\<lambda>_. ret ok))"

definition test_generator :: "openssl \<Rightarrow> bool tool_action" where
  "test_generator ossl = andthen get_state (\<lambda>w.
     let (ok, g) = self_test ossl (t_rng w) in
     andthen (modify (\<lambda>w. w\<lparr>t_rng := g\<rparr>)) (\<lambda>_. ret ok))"

definition load_snapshot :: "string \<Rightarrow> (snapshot_error + snapshot) tool_action" where
  "load_snapshot path = andthen get_state (\<lambda>w. ret (read_snapshot path (t_files w)))"

section \<open>mk_snapshot\<close>

text \<open>The arguments after the seed: the threshold so far and the player ids so far.\<close>

fun parse_ids :: "string list \<Rightarrow> byte \<Rightarrow> u64 list \<Rightarrow> (byte \<times> u64 list) option" where
  "parse_ids [] t ids = Some (t, ids)"
| "parse_ids (arg # args) t ids =
     (if arg = ''--t''
      then (case args of [] \<Rightarrow> None | v # rest \<Rightarrow> parse_ids rest (ucast (strtoull 0 v)) ids)
      else parse_ids args t (ids @ [strtoull 0 arg]))"

definition parse_seed :: "string list \<Rightarrow> u64" where
  "parse_seed argv = (if 3 \<le> length argv then strtoull 0 (argv ! 2) else 1)"

definition player_line :: "snapshot_player \<Rightarrow> string" where
  "player_line p = ''  player '' @ to_string_u64 (sp_id p) @ '' paillier_pub='' @ dec_of_nat (length (sp_paillier_pub p))
     @ ''B paillier_priv='' @ dec_of_nat (length (sp_paillier_priv p)) @ ''B rp_pub='' @ dec_of_nat (length (sp_rp_pub p))
     @ ''B rp_priv='' @ dec_of_nat (length (sp_rp_priv p)) @ ''B''"

fun print_all :: "string list \<Rightarrow> unit tool_action" where
  "print_all [] = ret ()"
| "print_all (l # ls) = andthen (print l) (\<lambda>_. print_all ls)"

text \<open>From the generated snapshot to the end.\<close>

definition save_and_check :: "('pp, 'ps, 'rp, 'rs) setup_lib \<Rightarrow> string \<Rightarrow> snapshot \<Rightarrow> int tool_action" where
  "save_and_check lib out_path snap =
     (case verify_snapshot lib snap of
        Inl e \<Rightarrow> quit 1 (''FATAL: snapshot failed its own consistency check: '' @ e)
      | Inr _ \<Rightarrow>
          andthen (print ''snapshot invariants OK'') (\<lambda>_.
          andthen get_state (\<lambda>w.
          let (written, fs) = write_snapshot snap out_path (t_files w) in
          andthen (modify (\<lambda>w. w\<lparr>t_files := fs\<rparr>)) (\<lambda>_.
          case written of
            Inl e \<Rightarrow> quit 1 (''FATAL: write_snapshot: '' @ snapshot_error_text e)
          | Inr _ \<Rightarrow> andthen (load_snapshot out_path) (\<lambda>r.
          case r of
            Inl e \<Rightarrow> quit 1 (''FATAL: read-back failed: '' @ snapshot_error_text e)
          | Inr reloaded \<Rightarrow>
          (case verify_snapshot lib reloaded of
            Inl e \<Rightarrow> quit 1 (''FATAL: reloaded snapshot failed verification: '' @ e)
          | Inr _ \<Rightarrow>
              andthen (print (''wrote '' @ out_path @ '' and verified the read-back'')) (\<lambda>_.
              andthen (print_all (map player_line (s_players reloaded))) (\<lambda>_. ret 0))))))))"

definition mk_snapshot_main :: "('c, 'l, 'pp, 'ps, 'rp, 'rs) linked \<Rightarrow> string list \<Rightarrow> int tool_action" where
  "mk_snapshot_main lk argv =
     (if length argv < 2 then quit 2 ''usage: mk_snapshot <out-path> [seed] [--t N] [player-ids...]''
      else case parse_ids (drop 3 argv) 0 [] of
        None \<Rightarrow> quit 2 ''usage: --t requires a value''
      | Some (t, ids0) \<Rightarrow>
          let out_path = argv ! 1; seed = parse_seed argv; ids = (if ids0 = [] then [1, 2] else ids0) in
          andthen (install_generator (lk_openssl lk)) (\<lambda>ok.
          if \<not> ok then quit 1 ''FATAL: could not install the deterministic RAND_METHOD''
          else andthen (test_generator (lk_openssl lk)) (\<lambda>ok.
          if \<not> ok then quit 1 ''FATAL: deterministic RNG self-test failed''
          else andthen (print (''generating snapshot: seed='' @ to_string_u64 seed @ '' players='' @ dec_of_nat (length ids)
             @ '' t='' @ (if t \<noteq> 0 then dec_of_nat (unat t) else dec_of_nat (length ids))
             @ '' paillier='' @ dec_of_nat (unat PAILLIER_KEY_BITS)
             @ '' ring_pedersen='' @ dec_of_nat (unat RING_PEDERSEN_KEY_BITS))) (\<lambda>_.
          andthen (print ''(safe-prime generation is slow; this is expected)'') (\<lambda>_.
          andthen get_state (\<lambda>w.
          let (r, g) = generate_snapshot (lk_setup lk) seed ids t (g_state (t_rng w)) in
          andthen (put_generator g) (\<lambda>_.
          case r of
            Inl e \<Rightarrow> quit 1 (''FATAL: generate_snapshot: '' @ e)
          | Inr snap \<Rightarrow> save_and_check (lk_setup lk) out_path snap)))))))"

section \<open>A session of signing runs\<close>

text \<open>\<^verbatim>\<open>sess.run(cfg)\<close>, with the next duration of the clock.\<close>

definition run_tool :: "('c, 'l, 'pp, 'ps, 'rp, 'rs) linked \<Rightarrow> run_config \<Rightarrow> ('pp, 'ps, 'rp, 'rs) session
    \<Rightarrow> (run_result \<times> ('pp, 'ps, 'rp, 'rs) session) tool_action" where
  "run_tool lk cfg se = andthen get_state (\<lambda>w.
     let elapsed = (case t_clock w of [] \<Rightarrow> 0 | ms # _ \<Rightarrow> ms);
         (r, se', g) = session_run (lk_setup lk) (lk_algebra lk) (lk_service lk) cfg elapsed se (g_state (t_rng w)) in
     andthen (put_generator g) (\<lambda>_.
     andthen (modify (\<lambda>w. w\<lparr>t_clock := tl (t_clock w)\<rparr>)) (\<lambda>_.
     case r of None \<Rightarrow> exit_with Undefined | Some res \<Rightarrow> ret (res, se'))))"

text \<open>The probe of the generator: the reason it fails, or none.\<close>

definition probe :: "('c, 'l, 'pp, 'ps, 'rp, 'rs) linked \<Rightarrow> snapshot \<Rightarrow> string option tool_action" where
  "probe lk snap = andthen get_state (\<lambda>w.
     let (r, g) = rng_is_effective (lk_setup lk) (lk_service lk) snap (g_state (t_rng w)) in
     andthen (put_generator g) (\<lambda>_.
     case r of
       Inl _ \<Rightarrow> exit_with Undefined
     | Inr (Inl (Inl _)) \<Rightarrow> exit_with Uncaught
     | Inr (Inl (Inr (_, detail))) \<Rightarrow> ret (Some detail)
     | Inr (Inr _) \<Rightarrow> ret None))"

definition construct :: "('c, 'l, 'pp, 'ps, 'rp, 'rs) linked \<Rightarrow> snapshot
    \<Rightarrow> (string \<times> ('pp, 'ps, 'rp, 'rs) session) tool_action" where
  "construct lk snap =
     (case session_new (lk_setup lk) snap ''opus-key'' of
        (Inl Out_of_bounds, _) \<Rightarrow> exit_with Undefined
      | (Inl (Err e), se) \<Rightarrow> ret (e, se)
      | (Inr _, se) \<Rightarrow> ret ([], se))"

text \<open>\<^verbatim>\<open>++tally[label]\<close>\<close>

definition tally_add :: "string \<Rightarrow> (string, nat) omap \<Rightarrow> (string, nat) omap" where
  "tally_add label m = om_set label ((case om_find m label of None \<Rightarrow> 0 | Some n \<Rightarrow> n) + 1) m"

text \<open>The run of one case: one attacker, one block, one mutation, a time budget.\<close>

definition case_config :: "u64 \<Rightarrow> string \<Rightarrow> u64 \<Rightarrow> u64 \<Rightarrow> int \<Rightarrow> wire_field \<Rightarrow> wire_op \<Rightarrow> nat \<Rightarrow> byte \<Rightarrow> run_config" where
  "case_config seed txid attacker timeout round field operation byte_index bit' =
     run_config_default\<lparr>rc_seed := seed, rc_txid := txid, rc_blocks := 1, rc_malicious_ids := [attacker],
       rc_timeout_ms := timeout,
       rc_mutations := [\<lparr>m_round = round, m_attacker = attacker, m_field = field, m_op = operation, m_block = 0,
         m_byte_index = byte_index, m_bit = bit'\<rparr>]\<rparr>"

section \<open>smoke\<close>

record smoke_case =
  sc_name :: string
  sc_round :: int
  sc_field :: wire_field
  sc_op :: wire_op
  sc_byte_index :: nat
  sc_bit :: byte

definition SMOKE_FIELDS :: "(string \<times> field_spec) list" where
  "SMOKE_FIELDS = zip [''r1-mta-message'', ''r1-mta-commitment'', ''r1-mta-proof-entry'', ''r1-A'', ''r1-B'', ''r1-Z'',
     ''r2-ack'', ''r2-k-gamma-message'', ''r2-k-x-message'', ''r2-gamma'', ''r2-gamma-proof-entry'',
     ''r3-delta'', ''r3-DELTA'', ''r3-proof'', ''r4-si''] FIELDS"

definition make_cases :: "smoke_case list" where
  "make_cases = concat (map (\<lambda>(name, f).
     map (\<lambda>(i, offset, b). \<lparr>sc_name = name @ ''-flip-'' @ dec_of_nat i, sc_round = f_round f, sc_field = f_field f,
         sc_op = FLIP_BIT, sc_byte_index = offset, sc_bit = b\<rparr>) [(0, 0, 0), (1, 1, 1), (2, 7, 7), (3, 31, 3)]
     @ [\<lparr>sc_name = name @ ''-zero'', sc_round = f_round f, sc_field = f_field f, sc_op = ZERO, sc_byte_index = 0, sc_bit = 0\<rparr>]
     @ (if f_byte_vector f
        then map (\<lambda>keep. \<lparr>sc_name = name @ ''-truncate-'' @ dec_of_nat keep, sc_round = f_round f, sc_field = f_field f,
               sc_op = TRUNCATE, sc_byte_index = keep, sc_bit = 0\<rparr>) [0, 1, 7]
        else [])) SMOKE_FIELDS)"

definition clean_control :: "('c, 'l, 'pp, 'ps, 'rp, 'rs) linked \<Rightarrow> string \<Rightarrow> u64 \<Rightarrow> ('pp, 'ps, 'rp, 'rs) session
    \<Rightarrow> (u64 \<times> ('pp, 'ps, 'rp, 'rs) session) tool_action" where
  "clean_control lk txid seed se =
     andthen (run_tool lk (run_config_default\<lparr>rc_txid := txid, rc_seed := seed\<rparr>) se) (\<lambda>(r, se).
     andthen (print (''CONTROL txid='' @ txid @ '' verdict='' @ verdict_name (rr_v r)
       @ '' exit_class='' @ (if rr_v r = CLEAN_SIGN then ''0'' else ''1'') @ '' ms='' @ to_string_u64 (rr_elapsed_ms r))) (\<lambda>_.
     if rr_v r \<noteq> CLEAN_SIGN then exit_with (Exits 2)
     else ret (if rr_elapsed_ms r \<noteq> 0 then rr_elapsed_ms r else 1, se)))"

text \<open>One iteration of the loop over the cases, after its control.\<close>

definition smoke_one :: "('c, 'l, 'pp, 'ps, 'rp, 'rs) linked \<Rightarrow> u64 \<Rightarrow> u64 \<Rightarrow> nat \<Rightarrow> smoke_case
    \<Rightarrow> (string, nat) omap \<Rightarrow> ('pp, 'ps, 'rp, 'rs) session
    \<Rightarrow> ((string, nat) omap \<times> ('pp, 'ps, 'rp, 'rs) session) tool_action" where
  "smoke_one lk attacker control_ms i cs tally se =
     (let cfg = case_config (0x530000 + of_nat i) (''smoke-case-'' @ dec_of_nat i) attacker (control_ms * 40 + 1000)
            (sc_round cs) (sc_field cs) (sc_op cs) (sc_byte_index cs) (sc_bit cs) in
      andthen (run_tool lk cfg se) (\<lambda>(r, se).
      let label = verdict_name (rr_v r) in
      andthen (print (''CASE id='' @ dec_of_nat i @ '' name='' @ sc_name cs @ '' verdict='' @ label
        @ '' round='' @ to_string_int (rr_failed_round r) @ '' applied='' @ dec_of_nat (rr_mutations_applied r)
        @ '' ms='' @ to_string_u64 (rr_elapsed_ms r))) (\<lambda>_.
      if rr_mutations_applied r = 0 \<or> rr_v r = HARNESS_FAULT
      then quit 2 (''FAIL_CLOSED reason=invalid_test_case case='' @ dec_of_nat i)
      else if rr_v r = CRASH \<or> rr_v r = TIMEOUT \<or> rr_v r = INVALID_SIGNATURE \<or> rr_v r = STATE_CORRUPTION
      then quit 3 (''HIGH_SIGNAL case='' @ dec_of_nat i @ '' verdict='' @ label)
      else if rr_v r = CLEAN_SIGN
      then quit 4 (''REVIEW_ACCEPTED_MUTATION case='' @ dec_of_nat i)
      else ret (tally_add label tally, se))))"

fun smoke_loop :: "('c, 'l, 'pp, 'ps, 'rp, 'rs) linked \<Rightarrow> u64 \<Rightarrow> u64 \<Rightarrow> nat \<Rightarrow> smoke_case list
    \<Rightarrow> (string, nat) omap \<Rightarrow> ('pp, 'ps, 'rp, 'rs) session
    \<Rightarrow> ((string, nat) omap \<times> ('pp, 'ps, 'rp, 'rs) session) tool_action" where
  "smoke_loop lk attacker control_ms i [] tally se = ret (tally, se)"
| "smoke_loop lk attacker control_ms i (cs # css) tally se =
     andthen (if i \<noteq> 0 \<and> i mod 26 = 0
        then andthen (clean_control lk (''smoke-control-'' @ dec_of_nat i) (0x520000 + of_nat i) se) (\<lambda>(_, se). ret se)
        else ret se) (\<lambda>se.
     andthen (smoke_one lk attacker control_ms i cs tally se) (\<lambda>(tally, se).
     smoke_loop lk attacker control_ms (i + 1) css tally se))"

definition smoke_line :: "(string, nat) omap \<Rightarrow> string" where
  "smoke_line tally = ''SMOKE_PASS cases='' @ dec_of_nat (length make_cases)
     @ concat (map (\<lambda>(label, count). '' '' @ label @ ''='' @ dec_of_nat count) tally)"

definition smoke_main :: "('c, 'l, 'pp, 'ps, 'rp, 'rs) linked \<Rightarrow> string list \<Rightarrow> int tool_action" where
  "smoke_main lk argv =
     (if length argv \<noteq> 2 then quit 2 ''usage: opus_cmp_smoke <synthetic-snapshot>''
      else
        andthen (both (install_generator (lk_openssl lk)) (test_generator (lk_openssl lk))) (\<lambda>ok.
        if \<not> ok then quit 2 ''FAIL_CLOSED reason=deterministic_rng_unavailable''
        else andthen (load_snapshot (argv ! 1)) (\<lambda>r.
        case r of
          Inl _ \<Rightarrow> quit 2 ''FAIL_CLOSED reason=snapshot_invalid''
        | Inr snap \<Rightarrow>
            if verify_snapshot (lk_setup lk) snap \<noteq> Inr () then quit 2 ''FAIL_CLOSED reason=snapshot_invalid''
            else andthen (probe lk snap) (\<lambda>failure.
            if failure \<noteq> None then quit 2 ''FAIL_CLOSED reason=rng_not_effective''
            else andthen (construct lk snap) (\<lambda>(_, se).
            if \<not> se_ok se \<or> length (s_players snap) < 2 then quit 2 ''FAIL_CLOSED reason=session_unavailable''
            else andthen (clean_control lk ''smoke-control-pre'' 0x510000 se) (\<lambda>(control_ms, se).
              andthen (smoke_loop lk (sp_id (s_players snap ! 1)) control_ms 0 make_cases [] se) (\<lambda>(tally, se).
              andthen (clean_control lk ''smoke-control-post'' 0x540000 se) (\<lambda>_.
              andthen (print (smoke_line tally)) (\<lambda>_. ret 0)))))))))"

section \<open>The case runner\<close>

record case_spec =
  cs_name :: string
  cs_round :: int
  cs_field :: wire_field
  cs_op :: wire_op

definition CASES :: "case_spec list" where
  "CASES = [
     \<lparr>cs_name = ''r1-proof-flip'', cs_round = 1, cs_field = R1_MTA_PROOFS_ENTRY, cs_op = FLIP_BIT\<rparr>,
     \<lparr>cs_name = ''r1-commitment-flip'', cs_round = 1, cs_field = R1_MTA_COMMITMENT, cs_op = FLIP_BIT\<rparr>,
     \<lparr>cs_name = ''r1-A-flip'', cs_round = 1, cs_field = R1_POINT_A, cs_op = FLIP_BIT\<rparr>,
     \<lparr>cs_name = ''r1-B-zero'', cs_round = 1, cs_field = R1_POINT_B, cs_op = ZERO\<rparr>,
     \<lparr>cs_name = ''r2-ack-flip'', cs_round = 2, cs_field = R2_ACK, cs_op = FLIP_BIT\<rparr>,
     \<lparr>cs_name = ''r2-gamma-flip'', cs_round = 2, cs_field = R2_GAMMA, cs_op = FLIP_BIT\<rparr>,
     \<lparr>cs_name = ''r2-kx-msg-flip'', cs_round = 2, cs_field = R2_K_X_MTA_MESSAGE, cs_op = FLIP_BIT\<rparr>,
     \<lparr>cs_name = ''r3-delta-flip'', cs_round = 3, cs_field = R3_DELTA, cs_op = FLIP_BIT\<rparr>,
     \<lparr>cs_name = ''r3-DELTA-flip'', cs_round = 3, cs_field = R3_DELTA_POINT, cs_op = FLIP_BIT\<rparr>,
     \<lparr>cs_name = ''r3-proof-flip'', cs_round = 3, cs_field = R3_PROOF, cs_op = FLIP_BIT\<rparr>,
     \<lparr>cs_name = ''r4-si-flip'', cs_round = 4, cs_field = R4_SI, cs_op = FLIP_BIT\<rparr>,
     \<lparr>cs_name = ''r4-si-zero'', cs_round = 4, cs_field = R4_SI, cs_op = ZERO\<rparr>]"

text \<open>The number of cases to run: the last \<^verbatim>\<open>--cases=N\<close> that lowers it counts.\<close>

definition case_limit :: "string list \<Rightarrow> nat" where
  "case_limit args = foldl (\<lambda>limit arg.
     if take 8 arg = ''--cases=''
     then let n = unat (strtoull 10 (drop 8 arg)) in if n \<noteq> 0 \<and> n < limit then n else limit
     else limit) (length CASES) args"

fun batch :: "('c, 'l, 'pp, 'ps, 'rp, 'rs) linked \<Rightarrow> u64 \<Rightarrow> u64 \<Rightarrow> nat \<Rightarrow> case_spec list
    \<Rightarrow> (string, nat) omap \<Rightarrow> ('pp, 'ps, 'rp, 'rs) session
    \<Rightarrow> ((string, nat) omap \<times> ('pp, 'ps, 'rp, 'rs) session) tool_action" where
  "batch lk attacker control_ms i [] tally se = ret (tally, se)"
| "batch lk attacker control_ms i (cs # css) tally se =
     (let cfg = case_config (0x1000 + of_nat i) (''run-'' @ cs_name cs) attacker (control_ms * 30 + 1000)
            (cs_round cs) (cs_field cs) (cs_op cs) (3 + i) (of_nat i AND 7) in
      andthen (run_tool lk cfg se) (\<lambda>(r, se).
      andthen (print (cs_name cs @ '' : '' @ summary r)) (\<lambda>_.
      batch lk attacker control_ms (i + 1) css (tally_add (verdict_name (rr_v r)) tally) se)))"

definition control_config :: "string \<Rightarrow> run_config" where
  "control_config txid = run_config_default\<lparr>rc_seed := 0xC0, rc_txid := txid\<rparr>"

definition harness_main :: "('c, 'l, 'pp, 'ps, 'rp, 'rs) linked \<Rightarrow> string list \<Rightarrow> int tool_action" where
  "harness_main lk argv =
     (if length argv < 2 then quit 2 ''usage: opus_cmp_harness <snapshot-path> [--cases=N]''
      else let limit = case_limit (drop 2 argv) in
        andthen (both (install_generator (lk_openssl lk)) (test_generator (lk_openssl lk))) (\<lambda>ok.
        if \<not> ok then quit 1 ''FATAL: deterministic RNG could not be established''
        else andthen (load_snapshot (argv ! 1)) (\<lambda>r.
        case r of
          Inl e \<Rightarrow> quit 1 (''FATAL: '' @ snapshot_error_text e)
        | Inr snap \<Rightarrow>
        (case verify_snapshot (lk_setup lk) snap of
          Inl e \<Rightarrow> quit 1 (''FATAL: snapshot invariants failed: '' @ e)
        | Inr _ \<Rightarrow> andthen (probe lk snap) (\<lambda>failure.
        case failure of
          Some detail \<Rightarrow> quit 1 (''FATAL: determinism is not in force: '' @ detail)
        | None \<Rightarrow>
            andthen (print ''determinism: VERIFIED (same seed -> identical wire bytes)'') (\<lambda>_.
            andthen (construct lk snap) (\<lambda>(err, se).
            if \<not> se_ok se then quit 1 (''FATAL: session: '' @ err)
            else andthen (run_tool lk (control_config ''run-control-pre'') se) (\<lambda>(pre, se).
              andthen (print (''control(pre) : '' @ summary pre)) (\<lambda>_.
              if rr_v pre \<noteq> CLEAN_SIGN then quit 1 ''FATAL: honest control failed; the batch would be meaningless''
              else
                let control_ms = (if rr_elapsed_ms pre \<noteq> 0 then rr_elapsed_ms pre else 1);
                    attacker = sp_id (s_players snap ! (if 1 < length (s_players snap) then 1 else 0)) in
                andthen (batch lk attacker control_ms 0 (take limit CASES) [] se) (\<lambda>(tally, se).
                andthen (run_tool lk (control_config ''run-control-post'') se) (\<lambda>(post, se).
                andthen (print (''control(post): '' @ summary post)) (\<lambda>_.
                if rr_v post \<noteq> CLEAN_SIGN
                then quit 1 ''HARNESS FAULT: control regressed after the batch; discard these results''
                else
                  andthen (print ''--- tally ---'') (\<lambda>_.
                  andthen (print_all (map (\<lambda>(label, n). ''  '' @ label @ '': '' @ dec_of_nat n) tally)) (\<lambda>_.
                  andthen (print ''NOTE: CLEAN-REJECT and CLEAN-SIGN are EXPECTED outcomes, not findings.'') (\<lambda>_.
                  andthen (print ''No claim of any vulnerability is made or implied by this output.'') (\<lambda>_. ret 0))))))))))))))))"

end
