(* ===== verification/Tool_Runs.thy ===== *)
theory Tool_Runs
  imports Tools Fuzzer_Runs
begin

unbundle bit_operations_syntax

text \<open>
  What the command-line programs of \<open>Tools\<close> promise when they return zero, and the statuses they can
  end with otherwise. The collection \<open>end_rules\<close> follows the endings of an action through its steps.
\<close>

section \<open>Rules\<close>

lemma tool_print [simp]: "print line w = (Inr (), w\<lparr>t_out := t_out w @ [line]\<rparr>)"
  by (simp add: print_def modify_def)

lemma tool_quit [simp]: "quit code line w = (Inl (Exits code), w\<lparr>t_out := t_out w @ [line]\<rparr>)"
  by (simp add: quit_def andthen_def exit_with_def)

lemma hoare_quit: "hoare P (quit code line) Q (\<lambda>_. True)"
  by (simp add: hoare_def)

lemma hoare_print: "(\<And>w. P w \<Longrightarrow> Q () (w\<lparr>t_out := t_out w @ [line]\<rparr>)) \<Longrightarrow> hoare P (print line) Q (\<lambda>_. True)"
  by (simp add: hoare_def)

lemma hoare_free: "hoare P m (\<lambda>_ _. True) (\<lambda>_. True)"
  by (rule hoare_any)

lemma hoare_after: "(\<And>x. hoare (\<lambda>_. True) (f x) Q (\<lambda>_. True)) \<Longrightarrow> hoare P (andthen m f) Q (\<lambda>_. True)"
  by (rule hoare_andthen [OF hoare_free]) auto

lemma hoare_case_prod: "(\<And>a b. x = (a, b) \<Longrightarrow> hoare P (f a b) Q E) \<Longrightarrow> hoare P (case x of (a, b) \<Rightarrow> f a b) Q E"
  by (cases x) simp

lemma hoare_andthen_pair:
  assumes "hoare P m (\<lambda>(a, b) w. R a) E" "\<And>a b. R a \<Longrightarrow> hoare (\<lambda>_. True) (f a b) Q E"
  shows "hoare P (andthen m (\<lambda>(a, b). f a b)) Q E"
  using assms by (fastforce simp: hoare_def andthen_def split: sum.splits prod.splits)

text \<open>The endings of an action lie in a set.\<close>

definition ends_in :: "'e set \<Rightarrow> ('e, 's, 'a) action \<Rightarrow> bool" where
  "ends_in E m \<longleftrightarrow> (\<forall>w e w'. m w = (Inl e, w') \<longrightarrow> e \<in> E)"

named_theorems end_rules "Rules for the endings of actions"

lemma ends_andthen [end_rules]: "ends_in E m \<Longrightarrow> (\<And>x. ends_in E (f x)) \<Longrightarrow> ends_in E (andthen m f)"
  unfolding ends_in_def andthen_ends by blast

lemma ends_ret [end_rules]: "ends_in E (ret x)"
  by (simp add: ends_in_def ret_def)

lemma ends_get [end_rules]: "ends_in E get_state"
  by (simp add: ends_in_def get_state_def)

lemma ends_modify [end_rules]: "ends_in E (modify f)"
  by (simp add: ends_in_def modify_def)

lemma ends_exit [end_rules]: "e \<in> E \<Longrightarrow> ends_in E (exit_with e)"
  by (simp add: ends_in_def exit_with_def)

lemma ends_tool [end_rules]: "ends_in E (print line)" "Exits code \<in> E \<Longrightarrow> ends_in E (quit code line)"
  by (simp_all add: ends_in_def)

lemma ends_case_prod [end_rules]: "(\<And>a b. ends_in E (f a b)) \<Longrightarrow> ends_in E (case x of (a, b) \<Rightarrow> f a b)"
  by (cases x) simp

lemma ends_case_option [end_rules]:
  "ends_in E m \<Longrightarrow> (\<And>y. ends_in E (f y)) \<Longrightarrow> ends_in E (case x of None \<Rightarrow> m | Some y \<Rightarrow> f y)"
  by (cases x) simp_all

lemma ends_case_sum [end_rules]:
  "(\<And>y. ends_in E (m y)) \<Longrightarrow> (\<And>y. ends_in E (f y)) \<Longrightarrow> ends_in E (case x of Inl y \<Rightarrow> m y | Inr y \<Rightarrow> f y)"
  by (cases x) simp_all

lemma ends_if [end_rules]: "ends_in E m \<Longrightarrow> ends_in E n \<Longrightarrow> ends_in E (if b then m else n)"
  by simp

lemma ends_both [end_rules]: "ends_in E a \<Longrightarrow> ends_in E b \<Longrightarrow> ends_in E (both a b)"
  unfolding both_def by (intro end_rules)

lemma ends_print_all [end_rules]: "ends_in E (print_all ls)"
  by (induction ls) (auto intro!: end_rules)

lemma ends_generator [end_rules]: "ends_in E (install_generator ossl)" "ends_in E (test_generator ossl)"
  unfolding install_generator_def test_generator_def Let_def
  by (intro end_rules)+

lemma ends_load [end_rules]: "ends_in E (load_snapshot path)"
  unfolding load_snapshot_def by (intro end_rules)

lemma ends_run [end_rules]: "Undefined \<in> E \<Longrightarrow> ends_in E (run_tool lk cfg se)"
  unfolding run_tool_def put_generator_def Let_def
  by (intro end_rules)

lemma ends_probe [end_rules]: "Undefined \<in> E \<Longrightarrow> Uncaught \<in> E \<Longrightarrow> ends_in E (probe lk snap)"
  unfolding probe_def put_generator_def Let_def
  by (intro end_rules)

lemma ends_construct [end_rules]: "Undefined \<in> E \<Longrightarrow> ends_in E (construct lk snap)"
  unfolding construct_def by (auto split: prod.split sum.split fault.split intro!: end_rules)

section \<open>The generator of snapshots\<close>

lemma to_string_not_t: "to_string_u64 v \<noteq> ''--t''"
  by (rule dec_of_nat_shape [of "unat v"]) (auto simp: to_string_u64_def)

lemma parse_ids_numbers: "parse_ids (map to_string_u64 ids) t acc = Some (t, acc @ ids)"
  by (induction ids arbitrary: acc) (simp_all add: to_string_not_t strtoull_to_string_any_base)

lemma seed_not_a_number: "strtoull 0 ''--t'' = 0"
proof -
  have "read_sign ''--t'' = (True, ''-t'')" "read_prefix 0 ''-t'' = (10, ''-t'')" "takeWhile (digit_of 10) ''-t'' = []"
    by code_simp+
  then show ?thesis by (simp add: strtoull_def digits_value_def)
qed

text \<open>C38: the generator of snapshots reads back decimal arguments as they were printed, except that a
  threshold is cut to one byte; and when the optional seed is left out before \<^verbatim>\<open>--t N\<close>, it takes the
  option for a seed of zero and the threshold for the id of a player.\<close>

theorem snapshot_arguments_read_back:
  "parse_seed (prog # path # to_string_u64 seed # args) = seed
   \<and> parse_ids (drop 3 (prog # path # to_string_u64 seed # ''--t'' # to_string_u64 t # map to_string_u64 ids)) 0 []
       = Some (ucast t, ids)
   \<and> parse_seed [prog, path, ''--t'', to_string_u64 t] = 0
   \<and> parse_ids (drop 3 [prog, path, ''--t'', to_string_u64 t]) 0 [] = Some (0, [t])"
  by (simp add: parse_seed_def strtoull_to_string_any_base parse_ids_numbers to_string_not_t seed_not_a_number)

lemma save_and_check_saves:
  "hoare (\<lambda>_. True) (save_and_check lib path snap)
     (\<lambda>x w. x = 0 \<and> (\<exists>s. read_snapshot path (t_files w) = Inr s \<and> verify_snapshot lib s = Inr ())) (\<lambda>_. True)"
proof -
  define Q :: "tool \<Rightarrow> bool" where "Q = (\<lambda>w. \<exists>s. read_snapshot path (t_files w) = Inr s \<and> verify_snapshot lib s = Inr ())"
  have lines: "hoare Q (print_all ls) (\<lambda>_. Q) (\<lambda>_. True)" for ls
    by (induction ls) (auto intro!: hoare_ret hoare_before hoare_print simp: Q_def)
  have good: "hoare Q (andthen (print line) (\<lambda>_. andthen (print_all ls) (\<lambda>_. ret 0))) (\<lambda>x w. x = (0 :: int) \<and> Q w) (\<lambda>_. True)"
    for line ls
    by (intro hoare_before [where P = Q] hoare_print lines hoare_ret) (auto simp: Q_def)
  have readback: "hoare (\<lambda>_. True) (andthen (load_snapshot path) (\<lambda>r. case r of
      Inl e \<Rightarrow> quit 1 (''FATAL: read-back failed: '' @ snapshot_error_text e)
    | Inr reloaded \<Rightarrow> (case verify_snapshot lib reloaded of
        Inl e \<Rightarrow> quit 1 (''FATAL: reloaded snapshot failed verification: '' @ e)
      | Inr _ \<Rightarrow> andthen (print (''wrote '' @ path @ '' and verified the read-back'')) (\<lambda>_.
          andthen (print_all (map player_line (s_players reloaded))) (\<lambda>_. ret 0))))) (\<lambda>x w. x = (0 :: int) \<and> Q w) (\<lambda>_. True)"
  proof (rule hoare_andthen [where R = "\<lambda>r w. read_snapshot path (t_files w) = r"])
    show "hoare (\<lambda>_. True) (load_snapshot path) (\<lambda>r w. read_snapshot path (t_files w) = r) (\<lambda>_. True)"
      unfolding load_snapshot_def by (intro hoare_getting hoare_ret) auto
  qed (intro hoare_case_sum hoare_quit, rule hoare_weaken [OF good], auto simp: Q_def)
  have "hoare (\<lambda>_. True) (save_and_check lib path snap) (\<lambda>x w. x = 0 \<and> Q w) (\<lambda>_. True)"
    unfolding save_and_check_def Let_def
    by (intro readback hoare_case_sum hoare_quit hoare_after hoare_case_prod)
  then show ?thesis by (simp add: Q_def)
qed

text \<open>C25: when the generator of snapshots returns zero, whatever its arguments, the library and the
  device it writes to, the file it was told to write holds a snapshot that parses and verifies, so that
  every fuzzing program started on it gets past the loading of its fixture.\<close>

theorem generated_file_is_loadable:
  "hoare (\<lambda>_. True) (mk_snapshot_main lk argv)
     (\<lambda>x w. x = 0 \<and> (\<exists>s. read_snapshot (argv ! 1) (t_files w) = Inr s \<and> verify_snapshot (lk_setup lk) s = Inr ()
        \<and> (argv ! 1 = [] \<or> load_fixture lk (\<lambda>_. Some (argv ! 1)) (t_files w) p = (Inr (), p\<lparr>p_snap := s\<rparr>))))
     (\<lambda>_. True)"
proof -
  have fixture: "load_fixture lk (\<lambda>_. Some path) fs p = (Inr (), p\<lparr>p_snap := s\<rparr>)"
    if "path \<noteq> []" "read_snapshot path fs = Inr s" "verify_snapshot (lk_setup lk) s = Inr ()" for path fs s
    using that by (simp add: load_fixture_def andthen_def modify_def ret_def)
  have "hoare (\<lambda>_. True) (mk_snapshot_main lk argv)
     (\<lambda>x w. x = 0 \<and> (\<exists>s. read_snapshot (argv ! 1) (t_files w) = Inr s \<and> verify_snapshot (lk_setup lk) s = Inr ())) (\<lambda>_. True)"
    unfolding mk_snapshot_main_def Let_def
    by (intro hoare_if hoare_quit hoare_case_option hoare_case_prod hoare_after hoare_case_sum
        hoare_weaken [OF save_and_check_saves]) auto
  then show ?thesis by (rule hoare_weaken) (use fixture in blast)+
qed

section \<open>smoke\<close>

lemma make_cases_length: "length make_cases = 96"
  by (simp add: make_cases_def SMOKE_FIELDS_def FIELDS_def)

text \<open>A passed case was rejected cleanly, so the tally has one line.\<close>

definition rejects :: "nat \<Rightarrow> (string, nat) omap" where
  "rejects k = (if k = 0 then [] else [(''CLEAN-REJECT'', k)])"

lemma tally_rejects: "tally_add ''CLEAN-REJECT'' (rejects k) = rejects (Suc k)"
  by (simp add: rejects_def tally_add_def om_find_def)

lemma smoke_one_rejects:
  "hoare P (smoke_one lk attacker ms i cs (rejects k) se) (\<lambda>(tally, se) w. tally = rejects (Suc k)) (\<lambda>_. True)"
proof -
  have judged: "hoare (\<lambda>_. True) (if rr_mutations_applied r = 0 \<or> rr_v r = HARNESS_FAULT then quit 2 a
      else if rr_v r = CRASH \<or> rr_v r = TIMEOUT \<or> rr_v r = INVALID_SIGNATURE \<or> rr_v r = STATE_CORRUPTION then quit 3 b
      else if rr_v r = CLEAN_SIGN then quit 4 c
      else ret (tally_add (verdict_name (rr_v r)) (rejects k), se')) (\<lambda>(tally, se) w. tally = rejects (Suc k)) (\<lambda>_. True)" for r a b c se'
    by (cases "rr_v r") (auto simp: tally_rejects intro!: hoare_quit hoare_ret)
  show ?thesis unfolding smoke_one_def Let_def by (intro hoare_after hoare_case_prod judged)
qed

lemma smoke_loop_rejects:
  "hoare P (smoke_loop lk attacker ms i css (rejects k) se) (\<lambda>(tally, se) w. tally = rejects (k + length css)) (\<lambda>_. True)"
proof (induction css arbitrary: P i k se)
  case Nil
  show ?case by (simp add: hoare_ret)
next
  case (Cons cs css)
  have "hoare P' (andthen (smoke_one lk attacker ms i cs (rejects k) se') (\<lambda>(tally, se). smoke_loop lk attacker ms (i + 1) css tally se))
      (\<lambda>(tally, se) w. tally = rejects (k + length (cs # css))) (\<lambda>_. True)" for P' se'
    by (rule hoare_andthen_pair [OF smoke_one_rejects]) (use Cons.IH [where k = "Suc k"] in simp)
  then show ?case unfolding smoke_loop.simps by (rule hoare_after)
qed

text \<open>C26: whenever the smoke test returns zero, its last line counts 96 clean rejections, one for each of
  its cases, and no other verdict, whatever the snapshot, the library and the durations. Otherwise it
  ends with status 2, 3 or 4, or where the library leaves the run undefined or an exception uncaught.\<close>

theorem smoke_passes_only_on_clean_rejects:
  "hoare (\<lambda>_. True) (smoke_main lk argv)
     (\<lambda>x w. x = 0 \<and> (\<exists>ls. t_out w = ls @ [''SMOKE_PASS cases=96 CLEAN-REJECT=96''])) (\<lambda>_. True)
   \<and> ends_in {Exits 2, Exits 3, Exits 4, Undefined, Uncaught} (smoke_main lk argv)"
proof
  have "dec_of_nat 96 = ''96''" by code_simp
  then have line: "smoke_line (rejects (length make_cases)) = ''SMOKE_PASS cases=96 CLEAN-REJECT=96''"
    by (simp add: smoke_line_def rejects_def make_cases_length)
  define Q where "Q = (\<lambda>(x :: int) (w :: tool). x = 0 \<and> (\<exists>ls. t_out w = ls @ [''SMOKE_PASS cases=96 CLEAN-REJECT=96'']))"
  have last: "hoare (\<lambda>_. True) (andthen (print ''SMOKE_PASS cases=96 CLEAN-REJECT=96'') (\<lambda>_. ret 0)) Q (\<lambda>_. True)"
    by (auto simp: hoare_def andthen_def ret_def Q_def)
  have loop: "hoare P (andthen (smoke_loop lk a ms 0 make_cases [] se) (\<lambda>(tally, se).
      andthen (clean_control lk t seed se) (\<lambda>_. andthen (print (smoke_line tally)) (\<lambda>_. ret 0)))) Q (\<lambda>_. True)" for P a ms se t seed
    by (rule hoare_andthen_pair [where R = "\<lambda>tally. tally = rejects (length make_cases)"],
        use smoke_loop_rejects [of P lk a ms 0 make_cases 0 se] in \<open>simp add: rejects_def\<close>)
      (auto simp: line intro!: hoare_after last)
  show "hoare (\<lambda>_. True) (smoke_main lk argv)
     (\<lambda>x w. x = 0 \<and> (\<exists>ls. t_out w = ls @ [''SMOKE_PASS cases=96 CLEAN-REJECT=96''])) (\<lambda>_. True)"
    unfolding smoke_main_def Q_def [symmetric]
    by (intro hoare_if hoare_quit hoare_case_sum loop hoare_after hoare_case_prod)
next
  show "ends_in {Exits 2, Exits 3, Exits 4, Undefined, Uncaught} (smoke_main lk argv)"
  proof -
    let ?E = "{Exits 2, Exits 3, Exits 4, Undefined, Uncaught}"
    have control: "ends_in ?E (clean_control lk t seed se)" for t seed se
      unfolding clean_control_def by (intro end_rules) simp_all
    have one: "ends_in ?E (smoke_one lk a ms i cs tally se)" for a ms i cs tally se
      unfolding smoke_one_def Let_def by (intro end_rules) simp_all
    have "ends_in ?E (smoke_loop lk a ms i css tally se)" for a ms i css tally se
      by (induction css arbitrary: i tally se) (auto intro!: end_rules control one)
    then show ?thesis unfolding smoke_main_def by (intro end_rules control) simp_all
  qed
qed

section \<open>The case runner\<close>

lemma tally_add_sum:
  "om_ok m \<Longrightarrow> om_ok (tally_add label m) \<and> sum_list (map snd (tally_add label m)) = Suc (sum_list (map snd m))"
proof -
  assume ok: "om_ok m"
  have "sum_list (map snd (om_set label v m)) + (case om_find m label of None \<Rightarrow> 0 | Some n \<Rightarrow> n) = sum_list (map snd m) + v"
    for v :: nat using ok
  proof (induction m)
    case (Cons p m)
    then show ?case by (cases p) (auto simp: om_find_def om_ok_def split: option.splits dest!: map_of_SomeD)
  qed (simp add: om_find_def)
  from this [of "(case om_find m label of None \<Rightarrow> 0 | Some n \<Rightarrow> n) + 1"] ok show ?thesis
    by (simp add: tally_add_def om_ok_set)
qed

lemma batch_counts:
  "om_ok tally \<Longrightarrow> hoare P (batch lk attacker ms i css tally se)
     (\<lambda>(tally', se) w. om_ok tally' \<and> sum_list (map snd tally') = sum_list (map snd tally) + length css) (\<lambda>_. True)"
proof (induction css arbitrary: P i tally se)
  case Nil
  then show ?case by (simp add: hoare_ret)
next
  case (Cons cs css)
  have "hoare P' (batch lk attacker ms (i + 1) css (tally_add label tally) se')
      (\<lambda>(tally', se) w. om_ok tally' \<and> sum_list (map snd tally') = sum_list (map snd tally) + length (cs # css)) (\<lambda>_. True)" for P' label se'
    using Cons.IH [of "tally_add label tally" P' "i + 1" se'] tally_add_sum [OF Cons.prems, of label] by simp
  then show ?case unfolding batch.simps Let_def
    by (intro hoare_after hoare_case_prod)
qed

lemma case_limit_bounds: "1 \<le> case_limit args \<and> case_limit args \<le> length CASES"
proof -
  have "1 \<le> l \<Longrightarrow> l \<le> length CASES \<Longrightarrow>
    1 \<le> foldl (\<lambda>limit arg. if take 8 arg = ''--cases=''
       then let n = unat (strtoull 10 (drop 8 arg)) in if n \<noteq> 0 \<and> n < limit then n else limit else limit) l args
    \<and> foldl (\<lambda>limit arg. if take 8 arg = ''--cases=''
       then let n = unat (strtoull 10 (drop 8 arg)) in if n \<noteq> 0 \<and> n < limit then n else limit else limit) l args \<le> length CASES" for l
    by (induction args arbitrary: l) (auto simp: Let_def)
  then show ?thesis unfolding case_limit_def by (simp add: CASES_def)
qed

definition final_lines :: "(string, nat) omap \<Rightarrow> string list" where
  "final_lines tally = ''--- tally ---'' # map (\<lambda>(label, n). ''  '' @ label @ '': '' @ dec_of_nat n) tally
     @ [''NOTE: CLEAN-REJECT and CLEAN-SIGN are EXPECTED outcomes, not findings.'',
        ''No claim of any vulnerability is made or implied by this output.'']"

lemma print_all_eq: "print_all ls w = (Inr (), w\<lparr>t_out := t_out w @ ls\<rparr>)"
  by (induction ls arbitrary: w) (simp_all add: ret_def andthen_def)

text \<open>C37: when the case runner returns zero, it ran as many cases as \<^verbatim>\<open>--cases\<close> allows, between one
  and twelve, and the tally it printed last accounts for every one of them under its verdict, whatever
  the verdicts were. A crash or an invalid signature does not change the status: apart from undefined
  runs and uncaught exceptions it is 1 or 2, decided before and after the cases.\<close>

theorem case_runner_counts_every_case:
  "hoare (\<lambda>_. True) (harness_main lk argv)
     (\<lambda>x w. x = 0 \<and> (\<exists>ls tally. t_out w = ls @ final_lines tally \<and> sum_list (map snd tally) = case_limit (drop 2 argv)
        \<and> 1 \<le> case_limit (drop 2 argv) \<and> case_limit (drop 2 argv) \<le> 12)) (\<lambda>_. True)
   \<and> ends_in {Exits 1, Exits 2, Undefined, Uncaught} (harness_main lk argv)
   \<and> ends_in {Undefined} (batch lk attacker control_ms i cases tally0 se)"
proof (intro conjI)
  let ?n = "case_limit (drop 2 argv)"
  have n: "1 \<le> ?n" "?n \<le> 12" "length (take ?n CASES) = ?n"
    using case_limit_bounds [of "drop 2 argv"] by (simp_all add: CASES_def)
  define Q where "Q = (\<lambda>(x :: int) (w :: tool). x = 0 \<and> (\<exists>ls tally. t_out w = ls @ final_lines tally
     \<and> sum_list (map snd tally) = ?n \<and> 1 \<le> ?n \<and> ?n \<le> 12))"
  have last: "hoare (\<lambda>_. True) (andthen (print ''--- tally ---'') (\<lambda>_.
      andthen (print_all (map (\<lambda>(label, n). ''  '' @ label @ '': '' @ dec_of_nat n) tally)) (\<lambda>_.
      andthen (print ''NOTE: CLEAN-REJECT and CLEAN-SIGN are EXPECTED outcomes, not findings.'') (\<lambda>_.
      andthen (print ''No claim of any vulnerability is made or implied by this output.'') (\<lambda>_. ret 0))))) Q (\<lambda>_. True)"
    if "sum_list (map snd tally) = ?n" for tally
    unfolding hoare_def Q_def andthen_def print_all_eq tool_print ret_def prod.case sum.case
    using that n(1,2) by (force simp: final_lines_def)
  have loop: "hoare P (andthen (batch lk a ms 0 (take ?n CASES) [] se) (\<lambda>(tally, se). f tally se)) Q (\<lambda>_. True)"
    if "\<And>tally se. sum_list (map snd tally) = ?n \<Longrightarrow> hoare (\<lambda>_. True) (f tally se) Q (\<lambda>_. True)" for P a ms se f
    by (rule hoare_andthen_pair [where R = "\<lambda>tally. sum_list (map snd tally) = ?n"])
      (rule hoare_weaken [OF batch_counts [of "[]" P]], use n(3) that in auto)
  show "hoare (\<lambda>_. True) (harness_main lk argv)
     (\<lambda>x w. x = 0 \<and> (\<exists>ls tally. t_out w = ls @ final_lines tally \<and> sum_list (map snd tally) = ?n \<and> 1 \<le> ?n \<and> ?n \<le> 12)) (\<lambda>_. True)"
    unfolding harness_main_def Let_def Q_def [symmetric]
    by (intro hoare_if hoare_quit hoare_case_sum hoare_case_option loop last hoare_after hoare_case_prod)
next
  have batch: "ends_in {Undefined} (batch lk a ms i css tally se)" for a ms i css tally se
    by (induction css arbitrary: i tally se) (auto simp: Let_def intro!: end_rules)
  then show "ends_in {Undefined} (batch lk attacker control_ms i cases tally0 se)" .
  have "ends_in {Exits 1, Exits 2, Undefined, Uncaught} (batch lk a ms i css tally se)" for a ms i css tally se
    using batch [of a ms i css tally se] by (auto simp: ends_in_def)
  then show "ends_in {Exits 1, Exits 2, Undefined, Uncaught} (harness_main lk argv)"
    unfolding harness_main_def Let_def by (intro end_rules) simp_all
qed

end
