(* ===== verification/Spec2Isabelle.thy ===== *)
theory Spec2Isabelle
  imports Prelude Det_Rand Snapshot_Codec Mutators Fixtures Oracles Snapshot_Setup Service Driver Driver_Repeat
    Dual_Session Dual_Interleaving Dual_Oracles Posix Telemetry Telemetry_Claims C_Numbers Fuzzers Fuzzer_Runs
    Tools Tool_Runs
begin

text \<open>
  A verification library of the fuzzing harness for CMP ECDSA online signing,
  \<^verbatim>\<open>src/harness/cmp_ecdsa_online\<close>; the paths below are relative to that directory.

  \<^bold>\<open>The program.\<close> The harness freezes the key material of a small group of players in a snapshot file
  (\<^verbatim>\<open>tools/mk_snapshot.cpp\<close>, \<^verbatim>\<open>src/snapshot.cpp\<close>), installs it into per-player
  key stores (\<^verbatim>\<open>src/fixtures.cpp\<close>), and runs the five rounds of the signing library's online protocol
  over them (\<^verbatim>\<open>src/driver.cpp\<close>), altering what malicious players send
  (\<^verbatim>\<open>src/mutators.cpp\<close>). It decides by oracles (\<^verbatim>\<open>src/oracles.cpp\<close>) whether a
  run is a finding. A second driver interleaves two ceremonies over the same players
  (\<^verbatim>\<open>src/dual_session.cpp\<close>). Every run is reproducible because the process's random generator is
  replaced by a seeded one (\<^verbatim>\<open>src/det_rand.cpp\<close>). Three libFuzzer programs
  (\<^verbatim>\<open>src/fuzzer.cpp\<close>, \<^verbatim>\<open>src/fuzzer_reachability_v2.cpp\<close>,
  \<^verbatim>\<open>src/fuzzer_dual_session.cpp\<close>), a smoke test (\<^verbatim>\<open>src/smoke.cpp\<close>) and a case
  runner (\<^verbatim>\<open>src/main.cpp\<close>) call the drivers; two of the fuzzers count what they reached in documents
  that a campaign aggregates (\<^verbatim>\<open>src/telemetry_v2.cpp\<close>).

  \<^bold>\<open>Theories and code.\<close>
  \<^item> \<open>Prelude\<close>: machine integers, byte serialisation, decimal printing, \<^verbatim>\<open>std::map\<close> as a sorted
    association list (\<open>omap\<close>, locale \<open>keyed_map\<close>), errors as sums.
  \<^item> \<open>Det_Rand\<close>: \<^verbatim>\<open>det_rand.cpp\<close>. The generator's state is \<open>drbg_state\<close>; the globals with the
    OpenSSL method table are \<open>rng_globals\<close>. A seeded state refines an endless byte stream (locale \<open>byte_stream\<close>).
  \<^item> \<open>Snapshot_Codec\<close> and \<open>Snapshot_Setup\<close>: \<^verbatim>\<open>snapshot.cpp\<close>. The file format with its reader and writer
    (locale \<open>field_codec\<close>, one interpretation per kind of field); generation, verification, installation.
  \<^item> \<open>Mutators\<close>: \<^verbatim>\<open>mutators.cpp\<close>, one function per message of the protocol (locale \<open>mutator\<close>).
  \<^item> \<open>Fixtures\<close>: \<^verbatim>\<open>fixtures.cpp\<close>: platform, key store, transaction store, canonical digests. The
    transaction store implements a map from transactions to records (locale \<open>txid_store\<close>).
  \<^item> \<open>Oracles\<close>: \<^verbatim>\<open>oracles.cpp\<close>.
  \<^item> \<open>Service\<close>: the interface to the signing library: five calls, each a function of the player's
    environment, the service's own state and the generator, that may throw.
  \<^item> \<open>Driver\<close> and \<open>Driver_Repeat\<close>: \<^verbatim>\<open>driver.cpp\<close>. \<open>session_run\<close> is the body of
    \<^verbatim>\<open>session::run\<close>, composed of the structural guards, the rounds with their mutated views, the
    treatment of exceptions and the verdict; \<open>Driver_Repeat\<close> shows runs independent of each other
    (locale \<open>call_simulation\<close>).
  \<^item> \<open>Dual_Session\<close>, \<open>Dual_Interleaving\<close>, \<open>Dual_Oracles\<close>: \<^verbatim>\<open>dual_session.cpp\<close>. The first has the
    definitions; the second treats the scheduler as a run of the relation \<open>interleaving\<close> over two resumable tasks
    (locale \<open>resumable\<close>); the third shows what its fingerprints and findings mean.
  \<^item> \<open>Posix\<close>, \<open>Telemetry\<close>, \<open>Telemetry_Claims\<close>: \<^verbatim>\<open>telemetry_v2.cpp\<close>. The first has the file system and the
    calls of the operating system with Hoare rules for sequences of them; the last has the claims of job numbers by
    several processes (locale \<open>exclusive_names\<close>).
  \<^item> \<open>C_Numbers\<close>, \<open>Fuzzers\<close>, \<open>Fuzzer_Runs\<close>: the number parsers of the C library and the three fuzzing programs, their
    \<^verbatim>\<open>LLVMFuzzerInitialize\<close> and \<^verbatim>\<open>LLVMFuzzerTestOneInput\<close> as actions on the state
    of the process (\<open>process\<close>) that may end it (\<open>ending\<close>); locale \<open>fuzz_target\<close> is the contract with libFuzzer.
  \<^item> \<open>Tools\<close>, \<open>Tool_Runs\<close>: \<^verbatim>\<open>main\<close> of \<^verbatim>\<open>mk_snapshot.cpp\<close>, \<^verbatim>\<open>smoke.cpp\<close> and
    \<^verbatim>\<open>main.cpp\<close>.

  \<^bold>\<open>What is shown.\<close> For the single-session driver: what each verdict means, that runs are
  independent of each other, and that a run reporting no applied mutation is the unmutated run. For the
  scheduler: it ends, its report replays, and each finding has the meaning it claims for every schedule and
  every library. For snapshots: the file round-trips, generated ones verify, verified ones install. For the
  mutators: reports are truthful and only the attacker's messages change. For the telemetry: atomic
  publication under every failure and kill, counters that balance, distinct job numbers. For the fuzzers and
  the tools: the process stays usable between inputs, decoded inputs keep the driver's contract, an abort was
  counted first, a zero status is only returned for what it promises. Where the code deviates from what its
  comments say, a property states what it does.

  \<^bold>\<open>Bounds and fuel.\<close> The scheduler's loop has the source's own bound of 32 turns as its fuel; at most ten are
  ever taken. The claim of a job number tries the source's 100000 numbers, counted down by a measure. All other
  loops run over lists. Integers keep the width of the C++ types (\<open>byte\<close>, \<open>u32\<close>, \<open>u64\<close>).

  \<^bold>\<open>What stands outside.\<close> SHA-512 and SHA-256, the dispatch of OpenSSL's generator, the curve algebra, key
  generation and serialisers, and the signing service are arguments (\<open>openssl\<close>, \<open>crypto_lib\<close>, \<open>setup_lib\<close>,
  \<open>algebra_lib\<close>, \<open>cmp_service\<close>), with what a theorem needs of them as its hypotheses. The outcome of every system call is
  read from a script in the state, the measured durations are arguments, and reads outside a vector are fault
  values. An exception of the library is a value that the code's handlers inspect.

  \<^bold>\<open>Not modelled.\<close> The mutexes of the stores (the harness runs one thread), the silencing of the library's log,
  the separation of standard output from standard error (both are one list of lines), the test programs under \<^verbatim>\<open>tests\<close>, the Python and
  shell tooling, the containers and build files, and the signing library itself, which is not part of the repository.
\<close>

end
